theory Spec2Isabelle
  imports Complex_Main
begin

section \<open>Data model\<close>

text \<open>
  The development embeds \<^verbatim>\<open>uniform_grid.cpp\<close> / \<^verbatim>\<open>uniform_grid.h\<close>.

  Numbers. A C++ \<^verbatim>\<open>float\<close> is idealised as a \<^typ>\<open>real\<close>: arithmetic is exact and
  there is neither rounding nor NaN. The only non-finite value the code itself creates,
  \<^verbatim>\<open>std::numeric_limits<float>::infinity()\<close> in \<^verbatim>\<open>QueryRay\<close>, is kept as a value of
  its own (type \<open>tval\<close> below).

  A C++ \<^verbatim>\<open>int\<close> has 32 bits. Its values are kept as \<^typ>\<open>int\<close>, and the two places
  where the code can leave the range are written out: the arithmetic on dimensions and
  cell indices wraps around (\<open>wrap32\<close>), and the conversion \<^verbatim>\<open>(int)\<close> of a float that does
  not fit gives \<open>-2^31\<close> (\<open>float_to_int\<close>). Both are undefined behaviour in C++; the model
  takes what gcc produces on x86-64 (two's complement arithmetic, \<^verbatim>\<open>cvttss2si\<close>).

  \<^verbatim>\<open>Vector3\<close>, \<^verbatim>\<open>BoundingBox\<close> and \<^verbatim>\<open>Ray\<close> are raylib's structs; their fields
  \<^verbatim>\<open>x, y, z\<close>, \<^verbatim>\<open>min, max\<close> and \<^verbatim>\<open>position, direction\<close> are renamed to avoid clashes.
  Of \<^verbatim>\<open>Asteroid\<close> only the fields read by the grid are kept.
\<close>

record Vector3 =
  vx :: real
  vy :: real
  vz :: real

record Vector3Int =
  cell_x :: int
  cell_y :: int
  cell_z :: int

record BoundingBox =
  bmin :: Vector3
  bmax :: Vector3

record Ray =
  ray_position :: Vector3
  ray_direction :: Vector3

record Asteroid =
  position :: Vector3
  collisionRadius :: real
  isActive :: bool

record UniformGrid =
  gridMinBounds :: Vector3
  gridMaxBounds :: Vector3
  gridCellSize :: Vector3
  gridDimX :: int
  gridDimY :: int
  gridDimZ :: int
  totalCells :: int
  gridCells :: "int list list"

text \<open>raymath's \<^verbatim>\<open>Vector3Subtract\<close> and \<^verbatim>\<open>Vector3LengthSqr\<close>.\<close>

definition Vector3Subtract :: "Vector3 \<Rightarrow> Vector3 \<Rightarrow> Vector3" where
  "Vector3Subtract v1 v2 = \<lparr>vx = vx v1 - vx v2, vy = vy v1 - vy v2, vz = vz v1 - vz v2\<rparr>"

definition Vector3LengthSqr :: "Vector3 \<Rightarrow> real" where
  "Vector3LengthSqr v = vx v * vx v + vy v * vy v + vz v * vz v"

section \<open>32-bit integers\<close>

text \<open>The value of a 32-bit two's complement \<^verbatim>\<open>int\<close> after an operation whose exact
  result is \<open>v\<close>.\<close>

definition wrap32 :: "int \<Rightarrow> int" where
  "wrap32 v = (v + 2 ^ 31) mod 2 ^ 32 - 2 ^ 31"

text \<open>\<^verbatim>\<open>(int)x\<close> for a float \<open>x\<close> with the integral value \<open>v\<close> (the code converts only
  results of \<^verbatim>\<open>floorf\<close> and \<^verbatim>\<open>ceilf\<close>).\<close>

definition float_to_int :: "int \<Rightarrow> int" where
  "float_to_int v = (if - (2 ^ 31) \<le> v \<and> v < 2 ^ 31 then v else - (2 ^ 31))"

section \<open>Construction and clearing\<close>

text \<open>Lines 17-22 of the constructor: a non-positive cell size component becomes 1.\<close>

definition positiveCellSize :: "Vector3 \<Rightarrow> Vector3" where
  "positiveCellSize cellSize =
     \<lparr>vx = (if vx cellSize \<le> 0 then 1 else vx cellSize),
      vy = (if vy cellSize \<le> 0 then 1 else vy cellSize),
      vz = (if vz cellSize \<le> 0 then 1 else vz cellSize)\<rparr>"

text \<open>Lines 26-36: \<^verbatim>\<open>(int)ceilf(extent / cell)\<close>, then at least 1.\<close>

definition gridDim :: "real \<Rightarrow> real \<Rightarrow> int" where
  "gridDim extent cell = (let d = float_to_int \<lceil>extent / cell\<rceil> in if d \<le> 0 then 1 else d)"

text \<open>
  Lines 14-41: the fields as the constructor computes them, with the cell vector as
  \<^verbatim>\<open>gridCells.resize(totalCells)\<close> leaves it when it returns. The product
  \<^verbatim>\<open>gridDimX * gridDimY * gridDimZ\<close> is computed in \<^verbatim>\<open>int\<close>, left to right.
\<close>

definition UniformGrid_state :: "Vector3 \<Rightarrow> Vector3 \<Rightarrow> Vector3 \<Rightarrow> UniformGrid" where
  "UniformGrid_state worldMin worldMax cellSize =
     (let cs = positiveCellSize cellSize;
          gridTotalSize = Vector3Subtract worldMax worldMin;
          dimX = gridDim (vx gridTotalSize) (vx cs);
          dimY = gridDim (vy gridTotalSize) (vy cs);
          dimZ = gridDim (vz gridTotalSize) (vz cs);
          cells = wrap32 (wrap32 (dimX * dimY) * dimZ)
      in \<lparr>gridMinBounds = worldMin, gridMaxBounds = worldMax, gridCellSize = cs,
          gridDimX = dimX, gridDimY = dimY, gridDimZ = dimZ,
          totalCells = cells, gridCells = replicate (nat cells) []\<rparr>)"

text \<open>
  The constructor. \<^verbatim>\<open>resize\<close> takes a \<^verbatim>\<open>size_t\<close>: a negative \<open>totalCells\<close> becomes a
  size above \<^verbatim>\<open>max_size()\<close> and \<^verbatim>\<open>resize\<close> throws \<^verbatim>\<open>std::length_error\<close>, so that no grid
  is constructed. (Running out of memory for a count that is not negative is not modelled.)
\<close>

datatype grid_error = LengthError

definition UniformGrid_init :: "Vector3 \<Rightarrow> Vector3 \<Rightarrow> Vector3 \<Rightarrow> grid_error + UniformGrid" where
  "UniformGrid_init worldMin worldMax cellSize =
     (let g = UniformGrid_state worldMin worldMax cellSize
      in if totalCells g < 0 then Inl LengthError else Inr g)"

text \<open>
  \<^verbatim>\<open>Clear\<close> empties the cells \<open>0 .. totalCells - 1\<close>. (Writing past the end of the vector
  is undefined in C++; \<open>xs[i := v]\<close> leaves the list alone there. The invariant
  \<open>grid_inv\<close> below excludes the case.)
\<close>

definition Clear :: "UniformGrid \<Rightarrow> UniformGrid" where
  "Clear g = g\<lparr>gridCells := fold (\<lambda>i cells. cells[i := []]) [0..<nat (totalCells g)] (gridCells g)\<rparr>"

section \<open>Coordinate arithmetic\<close>

definition GetCellIndices :: "UniformGrid \<Rightarrow> Vector3 \<Rightarrow> Vector3Int" where
  "GetCellIndices g worldPos =
     (let relativePos = Vector3Subtract worldPos (gridMinBounds g)
      in \<lparr>cell_x = max 0 (min (float_to_int \<lfloor>vx relativePos / vx (gridCellSize g)\<rfloor>)
                               (gridDimX g - 1)),
          cell_y = max 0 (min (float_to_int \<lfloor>vy relativePos / vy (gridCellSize g)\<rfloor>)
                               (gridDimY g - 1)),
          cell_z = max 0 (min (float_to_int \<lfloor>vz relativePos / vz (gridCellSize g)\<rfloor>)
                               (gridDimZ g - 1))\<rparr>)"

definition IsValidIndex :: "UniformGrid \<Rightarrow> int \<Rightarrow> int \<Rightarrow> int \<Rightarrow> bool" where
  "IsValidIndex g ix iy iz \<longleftrightarrow>
     ix \<ge> 0 \<and> ix < gridDimX g \<and> iy \<ge> 0 \<and> iy < gridDimY g \<and> iz \<ge> 0 \<and> iz < gridDimZ g"

text \<open>\<^verbatim>\<open>ix + iy * gridDimX + iz * gridDimX * gridDimY\<close>, every operation in \<^verbatim>\<open>int\<close>.\<close>

definition Get1DIndex :: "UniformGrid \<Rightarrow> int \<Rightarrow> int \<Rightarrow> int \<Rightarrow> int" where
  "Get1DIndex g ix iy iz =
     wrap32 (wrap32 (ix + wrap32 (iy * gridDimX g)) +
             wrap32 (wrap32 (iz * gridDimX g) * gridDimY g))"

text \<open>
  \<^verbatim>\<open>Add\<close>, \<^verbatim>\<open>Query\<close> and \<^verbatim>\<open>QueryRay\<close> reach a cell through the same guarded sequence:
  \<^verbatim>\<open>if (IsValidIndex(..)) { cellIndex = Get1DIndex(..); if (cellIndex >= 0 && cellIndex <
  (int)gridCells.size()) <use gridCells[cellIndex]> else <TraceLog(LOG_WARNING, ..)> }\<close>.
  \<open>lookup_cell\<close> returns which of the three branches is taken.
\<close>

datatype cell_lookup = NotValid | Cell nat | Warning int

definition lookup_cell :: "UniformGrid \<Rightarrow> int \<Rightarrow> int \<Rightarrow> int \<Rightarrow> cell_lookup" where
  "lookup_cell g ix iy iz =
     (if IsValidIndex g ix iy iz then
        (let cellIndex = Get1DIndex g ix iy iz
         in if cellIndex \<ge> 0 \<and> cellIndex < int (length (gridCells g))
            then Cell (nat cellIndex) else Warning cellIndex)
      else NotValid)"

section \<open>Building\<close>

text \<open>The body of the innermost loop of \<^verbatim>\<open>Add\<close>: \<^verbatim>\<open>gridCells[cellIndex].push_back(instanceIndex)\<close>.\<close>

definition add_at :: "int \<Rightarrow> int \<Rightarrow> int \<Rightarrow> int \<Rightarrow> UniformGrid \<Rightarrow> UniformGrid" where
  "add_at instanceIndex iz iy ix g =
     (case lookup_cell g ix iy iz of
        Cell k \<Rightarrow> g\<lparr>gridCells := (gridCells g)[k := gridCells g ! k @ [instanceIndex]]\<rparr>
      | _ \<Rightarrow> g)"

definition Add :: "UniformGrid \<Rightarrow> int \<Rightarrow> BoundingBox \<Rightarrow> UniformGrid" where
  "Add g instanceIndex worldBounds =
     (let minIndices = GetCellIndices g (bmin worldBounds);
          maxIndices = GetCellIndices g (bmax worldBounds)
      in fold (\<lambda>iz. fold (\<lambda>iy. fold (\<lambda>ix. add_at instanceIndex iz iy ix)
                                     [cell_x minIndices..cell_x maxIndices])
                          [cell_y minIndices..cell_y maxIndices])
              [cell_z minIndices..cell_z maxIndices] g)"

text \<open>Lines 132-137: the radius used for the box, and the box.\<close>

definition boundsRadius :: "Asteroid \<Rightarrow> real" where
  "boundsRadius a = (let r = collisionRadius a in if r \<le> 0 then 1 / 2 else r)"

definition instanceBounds :: "Asteroid \<Rightarrow> BoundingBox" where
  "instanceBounds a =
     (let r = boundsRadius a; p = position a
      in \<lparr>bmin = \<lparr>vx = vx p - r, vy = vy p - r, vz = vz p - r\<rparr>,
          bmax = \<lparr>vx = vx p + r, vy = vy p + r, vz = vz p + r\<rparr>\<rparr>)"

definition BuildInstanced :: "UniformGrid \<Rightarrow> Asteroid list \<Rightarrow> UniformGrid" where
  "BuildInstanced g instances =
     fold (\<lambda>i g'. if \<not> isActive (instances ! i) then g'
                  else Add g' (int i) (instanceBounds (instances ! i)))
          [0..<length instances] (Clear g)"

section \<open>Neighbourhood query\<close>

text \<open>\<^verbatim>\<open>uniqueIndices.insert(gridCells[cellIndex].begin(), gridCells[cellIndex].end())\<close>
  behind the guard; \<^verbatim>\<open>std::set<int>\<close> is a set of integers.\<close>

definition collect :: "UniformGrid \<Rightarrow> int \<Rightarrow> int \<Rightarrow> int \<Rightarrow> int set \<Rightarrow> int set" where
  "collect g ix iy iz uniqueIndices =
     (case lookup_cell g ix iy iz of
        Cell k \<Rightarrow> uniqueIndices \<union> set (gridCells g ! k)
      | _ \<Rightarrow> uniqueIndices)"

definition Query :: "UniformGrid \<Rightarrow> Vector3 \<Rightarrow> int list" where
  "Query g worldPos =
     (let centerIndices = GetCellIndices g worldPos;
          uniqueIndices =
            fold (\<lambda>dz. fold (\<lambda>dy. fold (\<lambda>dx.
                    collect g (cell_x centerIndices + dx) (cell_y centerIndices + dy)
                              (cell_z centerIndices + dz))
                  [-1, 0, 1]) [-1, 0, 1]) [-1, 0, 1] {}
      in sorted_list_of_set uniqueIndices)"

section \<open>Ray query\<close>

text \<open>
  The values of \<^verbatim>\<open>tMax*\<close>, \<^verbatim>\<open>tDelta*\<close> and \<^verbatim>\<open>currentT\<close>: a finite number or
  \<^verbatim>\<open>+infinity\<close>, with the comparisons and the addition of IEEE arithmetic on them.
\<close>

datatype tval = Fin real | PInf

fun t_less :: "tval \<Rightarrow> tval \<Rightarrow> bool" where
  "t_less (Fin a) (Fin b) \<longleftrightarrow> a < b"
| "t_less (Fin a) PInf \<longleftrightarrow> True"
| "t_less PInf b \<longleftrightarrow> False"

fun t_ge :: "tval \<Rightarrow> tval \<Rightarrow> bool" where
  "t_ge (Fin a) (Fin b) \<longleftrightarrow> a \<ge> b"
| "t_ge (Fin a) PInf \<longleftrightarrow> False"
| "t_ge PInf b \<longleftrightarrow> True"

fun t_add :: "tval \<Rightarrow> tval \<Rightarrow> tval" where
  "t_add (Fin a) (Fin b) = Fin (a + b)"
| "t_add (Fin a) PInf = PInf"
| "t_add PInf b = PInf"

text \<open>The locals of \<^verbatim>\<open>QueryRay\<close> that change in the loop.\<close>

record RayState =
  cur_ix :: int
  cur_iy :: int
  cur_iz :: int
  tMaxX :: tval
  tMaxY :: tval
  tMaxZ :: tval
  currentT :: tval
  uniqueIndices :: "int set"

text \<open>The locals that are fixed before the loop (lines 194-221).\<close>

definition stepX :: "Ray \<Rightarrow> int" where
  "stepX ray = (if vx (ray_direction ray) \<ge> 0 then 1 else -1)"

definition stepY :: "Ray \<Rightarrow> int" where
  "stepY ray = (if vy (ray_direction ray) \<ge> 0 then 1 else -1)"

definition stepZ :: "Ray \<Rightarrow> int" where
  "stepZ ray = (if vz (ray_direction ray) \<ge> 0 then 1 else -1)"

text \<open>One axis of lines 204-221: \<open>d\<close> the direction component, \<open>step\<close> its step, \<open>i\<close> the
  starting cell coordinate, \<open>cell\<close> and \<open>lo\<close> the cell size and grid minimum on the axis,
  \<open>p\<close> the ray origin's coordinate.\<close>

definition initTMax :: "real \<Rightarrow> int \<Rightarrow> int \<Rightarrow> real \<Rightarrow> real \<Rightarrow> real \<Rightarrow> tval" where
  "initTMax d step i cell lo p =
     (if \<bar>d\<bar> > 1 / 10000 then
        (let nextBoundCoord = (if step > 0 then real_of_int (i + 1) * cell + lo
                               else real_of_int i * cell + lo)
         in Fin ((nextBoundCoord - p) / d))
      else PInf)"

definition tDelta :: "real \<Rightarrow> real \<Rightarrow> tval" where
  "tDelta d cell = (if \<bar>d\<bar> > 1 / 10000 then Fin \<bar>cell / d\<bar> else PInf)"

definition tDeltaX :: "UniformGrid \<Rightarrow> Ray \<Rightarrow> tval" where
  "tDeltaX g ray = tDelta (vx (ray_direction ray)) (vx (gridCellSize g))"

definition tDeltaY :: "UniformGrid \<Rightarrow> Ray \<Rightarrow> tval" where
  "tDeltaY g ray = tDelta (vy (ray_direction ray)) (vy (gridCellSize g))"

definition tDeltaZ :: "UniformGrid \<Rightarrow> Ray \<Rightarrow> tval" where
  "tDeltaZ g ray = tDelta (vz (ray_direction ray)) (vz (gridCellSize g))"

text \<open>Lines 190-233: the state on entry to the loop.\<close>

definition ray_start :: "UniformGrid \<Rightarrow> Ray \<Rightarrow> RayState" where
  "ray_start g ray =
     (let currentIndices = GetCellIndices g (ray_position ray);
          ix = cell_x currentIndices; iy = cell_y currentIndices; iz = cell_z currentIndices;
          dir = ray_direction ray; pos = ray_position ray
      in \<lparr>cur_ix = ix, cur_iy = iy, cur_iz = iz,
          tMaxX = initTMax (vx dir) (stepX ray) ix (vx (gridCellSize g)) (vx (gridMinBounds g)) (vx pos),
          tMaxY = initTMax (vy dir) (stepY ray) iy (vy (gridCellSize g)) (vy (gridMinBounds g)) (vy pos),
          tMaxZ = initTMax (vz dir) (stepZ ray) iz (vz (gridCellSize g)) (vz (gridMinBounds g)) (vz pos),
          currentT = Fin 0,
          uniqueIndices = collect g ix iy iz {}\<rparr>)"

text \<open>
  Lines 237-266 choose an axis by the nested comparisons and then do the same three
  assignments on it. \<open>choose_axis\<close> is the nest of comparisons, \<open>advance\<close> the assignments.
\<close>

datatype axis = AxisX | AxisY | AxisZ

definition choose_axis :: "RayState \<Rightarrow> axis" where
  "choose_axis st =
     (if t_less (tMaxX st) (tMaxY st) then
        (if t_less (tMaxX st) (tMaxZ st) then AxisX else AxisZ)
      else
        (if t_less (tMaxY st) (tMaxZ st) then AxisY else AxisZ))"

fun advance :: "UniformGrid \<Rightarrow> Ray \<Rightarrow> axis \<Rightarrow> RayState \<Rightarrow> RayState" where
  "advance g ray AxisX st =
     st\<lparr>currentT := tMaxX st, tMaxX := t_add (tMaxX st) (tDeltaX g ray),
        cur_ix := cur_ix st + stepX ray\<rparr>"
| "advance g ray AxisY st =
     st\<lparr>currentT := tMaxY st, tMaxY := t_add (tMaxY st) (tDeltaY g ray),
        cur_iy := cur_iy st + stepY ray\<rparr>"
| "advance g ray AxisZ st =
     st\<lparr>currentT := tMaxZ st, tMaxZ := t_add (tMaxZ st) (tDeltaZ g ray),
        cur_iz := cur_iz st + stepZ ray\<rparr>"

text \<open>
  The number of cells between the current cell and the face of the grid the ray is heading
  to, summed over the axes: the measure of the loop.
\<close>

definition remaining :: "UniformGrid \<Rightarrow> Ray \<Rightarrow> RayState \<Rightarrow> nat" where
  "remaining g ray st =
     nat (if stepX ray > 0 then gridDimX g - cur_ix st else cur_ix st + 1) +
     nat (if stepY ray > 0 then gridDimY g - cur_iy st else cur_iy st + 1) +
     nat (if stepZ ray > 0 then gridDimZ g - cur_iz st else cur_iz st + 1)"

text \<open>
  The \<^verbatim>\<open>while\<close> loop of lines 235-283. The rule that picks the axis is a parameter, so
  that the traversal with another tie-break can be compared with the implemented one.
  The warning branch of line 281 changes nothing but the log, as \<open>collect\<close> says.
\<close>

function ray_loop ::
  "(RayState \<Rightarrow> axis) \<Rightarrow> UniformGrid \<Rightarrow> Ray \<Rightarrow> real \<Rightarrow> RayState \<Rightarrow> int set" where
  "ray_loop pick g ray maxDistance st =
     (if t_less (currentT st) (Fin maxDistance) then
        (let st' = advance g ray (pick st) st
         in if t_ge (currentT st') (Fin maxDistance) then uniqueIndices st'
            else if \<not> IsValidIndex g (cur_ix st') (cur_iy st') (cur_iz st') then uniqueIndices st'
            else ray_loop pick g ray maxDistance
                   (st'\<lparr>uniqueIndices :=
                          collect g (cur_ix st') (cur_iy st') (cur_iz st') (uniqueIndices st')\<rparr>))
      else uniqueIndices st)"
  by pat_completeness auto
termination
proof (relation "measure (\<lambda>(pick, g, ray, maxDistance, st). remaining g ray st)")
  show "wf (measure (\<lambda>(pick, g, ray, maxDistance, st). remaining g ray st))"
    by simp
next
  fix pick :: "RayState \<Rightarrow> axis" and g ray and maxDistance :: real and st st'
  assume "st' = advance g ray (pick st) st"
    and "\<not> \<not> IsValidIndex g (cur_ix st') (cur_iy st') (cur_iz st')"
  then show "((pick, g, ray, maxDistance,
               st'\<lparr>uniqueIndices :=
                     collect g (cur_ix st') (cur_iy st') (cur_iz st') (uniqueIndices st')\<rparr>),
              (pick, g, ray, maxDistance, st))
             \<in> measure (\<lambda>(pick, g, ray, maxDistance, st). remaining g ray st)"
    by (cases "pick st")
       (auto simp: remaining_def IsValidIndex_def stepX_def stepY_def stepZ_def)
qed

definition QueryRay :: "UniformGrid \<Rightarrow> Ray \<Rightarrow> real \<Rightarrow> int list" where
  "QueryRay g ray maxDistance =
     (if Vector3LengthSqr (ray_direction ray) < 1 / 10000 then Query g (ray_position ray)
      else sorted_list_of_set (ray_loop choose_axis g ray maxDistance (ray_start g ray)))"

text \<open>
  The same loop with a budget of iterations: \<open>None\<close> when the budget is used up before the
  loop has left, otherwise the loop's result. It counts the executions of the loop body.
\<close>

fun ray_loop_fuel ::
  "nat \<Rightarrow> (RayState \<Rightarrow> axis) \<Rightarrow> UniformGrid \<Rightarrow> Ray \<Rightarrow> real \<Rightarrow> RayState \<Rightarrow> int set option" where
  "ray_loop_fuel 0 pick g ray maxDistance st =
     (if t_less (currentT st) (Fin maxDistance) then None else Some (uniqueIndices st))"
| "ray_loop_fuel (Suc n) pick g ray maxDistance st =
     (if t_less (currentT st) (Fin maxDistance) then
        (let st' = advance g ray (pick st) st
         in if t_ge (currentT st') (Fin maxDistance) then Some (uniqueIndices st')
            else if \<not> IsValidIndex g (cur_ix st') (cur_iy st') (cur_iz st') then Some (uniqueIndices st')
            else ray_loop_fuel n pick g ray maxDistance
                   (st'\<lparr>uniqueIndices :=
                          collect g (cur_ix st') (cur_iy st') (cur_iz st') (uniqueIndices st')\<rparr>))
      else Some (uniqueIndices st))"

definition QueryRay_fuel :: "nat \<Rightarrow> UniformGrid \<Rightarrow> Ray \<Rightarrow> real \<Rightarrow> int list option" where
  "QueryRay_fuel n g ray maxDistance =
     (if Vector3LengthSqr (ray_direction ray) < 1 / 10000 then Some (Query g (ray_position ray))
      else map_option sorted_list_of_set
             (ray_loop_fuel n choose_axis g ray maxDistance (ray_start g ray)))"

section \<open>The traversal of the specification\<close>

text \<open>
  The specification's step 5: advance along the axis whose \<open>tMax\<close> is smallest, and on
  equal values x before y before z. \<open>QueryRay_xyz\<close> is \<open>QueryRay\<close> with this rule.
\<close>

fun t_le :: "tval \<Rightarrow> tval \<Rightarrow> bool" where
  "t_le (Fin a) (Fin b) \<longleftrightarrow> a \<le> b"
| "t_le a PInf \<longleftrightarrow> True"
| "t_le PInf (Fin b) \<longleftrightarrow> False"

definition choose_axis_xyz :: "RayState \<Rightarrow> axis" where
  "choose_axis_xyz st =
     (if t_le (tMaxX st) (tMaxY st) \<and> t_le (tMaxX st) (tMaxZ st) then AxisX
      else if t_le (tMaxY st) (tMaxZ st) then AxisY
      else AxisZ)"

definition QueryRay_xyz :: "UniformGrid \<Rightarrow> Ray \<Rightarrow> real \<Rightarrow> int list" where
  "QueryRay_xyz g ray maxDistance =
     (if Vector3LengthSqr (ray_direction ray) < 1 / 10000 then Query g (ray_position ray)
      else sorted_list_of_set (ray_loop choose_axis_xyz g ray maxDistance (ray_start g ray)))"

text \<open>One of three values is strictly below the other two.\<close>

definition unique_min :: "tval \<Rightarrow> tval \<Rightarrow> tval \<Rightarrow> bool" where
  "unique_min a b c \<longleftrightarrow>
     (t_less a b \<and> t_less a c) \<or> (t_less b a \<and> t_less b c) \<or> (t_less c a \<and> t_less c b)"

text \<open>
  No iteration of the implemented loop, started in \<open>st\<close>, finds two smallest \<open>tMax\<close> values
  equal. The recursion is that of \<open>ray_loop choose_axis\<close>.
\<close>

function ray_tie_free :: "UniformGrid \<Rightarrow> Ray \<Rightarrow> real \<Rightarrow> RayState \<Rightarrow> bool" where
  "ray_tie_free g ray maxDistance st =
     (if t_less (currentT st) (Fin maxDistance) then
        unique_min (tMaxX st) (tMaxY st) (tMaxZ st) \<and>
        (let st' = advance g ray (choose_axis st) st
         in if t_ge (currentT st') (Fin maxDistance) then True
            else if \<not> IsValidIndex g (cur_ix st') (cur_iy st') (cur_iz st') then True
            else ray_tie_free g ray maxDistance
                   (st'\<lparr>uniqueIndices :=
                          collect g (cur_ix st') (cur_iy st') (cur_iz st') (uniqueIndices st')\<rparr>))
      else True)"
  by pat_completeness auto
termination
proof (relation "measure (\<lambda>(g, ray, maxDistance, st). remaining g ray st)")
  show "wf (measure (\<lambda>(g, ray, maxDistance, st). remaining g ray st))"
    by simp
next
  fix g ray and maxDistance :: real and st st'
  assume "st' = advance g ray (choose_axis st) st"
    and "\<not> \<not> IsValidIndex g (cur_ix st') (cur_iy st') (cur_iz st')"
  then show "((g, ray, maxDistance,
               st'\<lparr>uniqueIndices :=
                     collect g (cur_ix st') (cur_iy st') (cur_iz st') (uniqueIndices st')\<rparr>),
              (g, ray, maxDistance, st))
             \<in> measure (\<lambda>(g, ray, maxDistance, st). remaining g ray st)"
    by (cases "choose_axis st")
       (auto simp: remaining_def IsValidIndex_def stepX_def stepY_def stepZ_def)
qed

text \<open>The loops are unfolded on demand only.\<close>

declare ray_loop.simps [simp del] ray_tie_free.simps [simp del]

section \<open>The invariant of a grid\<close>

text \<open>
  What the constructor establishes and every operation keeps: positive cell sizes,
  dimensions between 1 and \<open>2^31 - 1\<close>, \<open>totalCells\<close> their product as \<^verbatim>\<open>int\<close> computes
  it and not negative, and one cell list per counted cell.
\<close>

definition grid_inv :: "UniformGrid \<Rightarrow> bool" where
  "grid_inv g \<longleftrightarrow>
     0 < vx (gridCellSize g) \<and> 0 < vy (gridCellSize g) \<and> 0 < vz (gridCellSize g) \<and>
     1 \<le> gridDimX g \<and> gridDimX g < 2 ^ 31 \<and>
     1 \<le> gridDimY g \<and> gridDimY g < 2 ^ 31 \<and>
     1 \<le> gridDimZ g \<and> gridDimZ g < 2 ^ 31 \<and>
     totalCells g = wrap32 (wrap32 (gridDimX g * gridDimY g) * gridDimZ g) \<and>
     0 \<le> totalCells g \<and>
     length (gridCells g) = nat (totalCells g)"

text \<open>The number of cells \<open>nx * ny * nz\<close> is an \<^verbatim>\<open>int\<close>: the product did not wrap.\<close>

definition cells_fit :: "UniformGrid \<Rightarrow> bool" where
  "cells_fit g \<longleftrightarrow> gridDimX g * gridDimY g * gridDimZ g < 2 ^ 31"

text \<open>The scaled coordinates of a position, \<^verbatim>\<open>floorf((p - min) / cellSize)\<close> on each axis,
  are values of \<^verbatim>\<open>int\<close>: the conversion in \<^verbatim>\<open>GetCellIndices\<close> is exact.\<close>

definition convertible :: "UniformGrid \<Rightarrow> Vector3 \<Rightarrow> bool" where
  "convertible g p \<longleftrightarrow>
     - (2 ^ 31) \<le> \<lfloor>(vx p - vx (gridMinBounds g)) / vx (gridCellSize g)\<rfloor> \<and>
     \<lfloor>(vx p - vx (gridMinBounds g)) / vx (gridCellSize g)\<rfloor> < 2 ^ 31 \<and>
     - (2 ^ 31) \<le> \<lfloor>(vy p - vy (gridMinBounds g)) / vy (gridCellSize g)\<rfloor> \<and>
     \<lfloor>(vy p - vy (gridMinBounds g)) / vy (gridCellSize g)\<rfloor> < 2 ^ 31 \<and>
     - (2 ^ 31) \<le> \<lfloor>(vz p - vz (gridMinBounds g)) / vz (gridCellSize g)\<rfloor> \<and>
     \<lfloor>(vz p - vz (gridMinBounds g)) / vz (gridCellSize g)\<rfloor> < 2 ^ 31"

section \<open>Notions used in the proofs\<close>

text \<open>\<open>g'\<close> is \<open>g\<close> up to the contents of its cells: every operation after
  construction changes nothing else.\<close>

definition same_shape :: "UniformGrid \<Rightarrow> UniformGrid \<Rightarrow> bool" where
  "same_shape g g' \<longleftrightarrow>
     g' = g\<lparr>gridCells := gridCells g'\<rparr> \<and> length (gridCells g') = length (gridCells g)"

text \<open>The indices that the guarded access finds at a coordinate triple.\<close>

definition cells_at :: "UniformGrid \<Rightarrow> int \<Rightarrow> int \<Rightarrow> int \<Rightarrow> int set" where
  "cells_at g ix iy iz =
     (case lookup_cell g ix iy iz of Cell k \<Rightarrow> set (gridCells g ! k) | _ \<Rightarrow> {})"

text \<open>All indices stored in any cell.\<close>

definition stored :: "UniformGrid \<Rightarrow> int set" where
  "stored g = (\<Union>cell \<in> set (gridCells g). set cell)"

text \<open>The cells that the three loops of \<^verbatim>\<open>Add\<close> write to for a box.\<close>

definition box_cells :: "UniformGrid \<Rightarrow> BoundingBox \<Rightarrow> nat set" where
  "box_cells g b =
     {k. \<exists>ix iy iz. lookup_cell g ix iy iz = Cell k \<and>
        cell_x (GetCellIndices g (bmin b)) \<le> ix \<and> ix \<le> cell_x (GetCellIndices g (bmax b)) \<and>
        cell_y (GetCellIndices g (bmin b)) \<le> iy \<and> iy \<le> cell_y (GetCellIndices g (bmax b)) \<and>
        cell_z (GetCellIndices g (bmin b)) \<le> iz \<and> iz \<le> cell_z (GetCellIndices g (bmax b))}"

text \<open>The union that \<^verbatim>\<open>Query\<close> accumulates around a centre cell.\<close>

definition neighbourhood :: "UniformGrid \<Rightarrow> Vector3Int \<Rightarrow> int set" where
  "neighbourhood g c =
     (\<Union>dz \<in> {-1, 0, 1}. \<Union>dy \<in> {-1, 0, 1}. \<Union>dx \<in> {-1, 0, 1}.
        cells_at g (cell_x c + dx) (cell_y c + dy) (cell_z c + dz))"

section \<open>The concrete scenario of the specification\<close>

abbreviation vec :: "real \<Rightarrow> real \<Rightarrow> real \<Rightarrow> Vector3" where
  "vec a b c \<equiv> \<lparr>vx = a, vy = b, vz = c\<rparr>"

text \<open>Bounds \<open>(-50,-50,-50)\<close> to \<open>(50,50,50)\<close>, cells of size 10; one active object of
  radius 1 at \<open>(5,5,5)\<close>.\<close>

definition scenario_grid :: UniformGrid where
  "scenario_grid = UniformGrid_state (vec (-50) (-50) (-50)) (vec 50 50 50) (vec 10 10 10)"

definition scenario_objects :: "Asteroid list" where
  "scenario_objects = [\<lparr>position = vec 5 5 5, collisionRadius = 1, isActive = True\<rparr>]"

definition scenario_ray :: Ray where
  "scenario_ray = \<lparr>ray_position = vec (-60) 5 5, ray_direction = vec 1 0 0\<rparr>"

text \<open>An active object far outside the bounds, with no radius of its own.\<close>

definition scenario_far :: "Asteroid list" where
  "scenario_far = [\<lparr>position = vec 1000 (-1000) 7, collisionRadius = 0, isActive = True\<rparr>]"

text \<open>The same object, deactivated.\<close>

definition scenario_inactive :: "Asteroid list" where
  "scenario_inactive = [\<lparr>position = vec 5 5 5, collisionRadius = 1, isActive = False\<rparr>]"

text \<open>
  A grid of 2 x 2 x 1 cells with one object in the cell \<open>(0,1,0)\<close>, and two rays from the
  centre of the cell \<open>(0,0,0)\<close>: \<open>tie_ray\<close> along the diagonal, which reaches the next
  x and y boundaries at the same parameter, and \<open>tie_free_ray\<close>, which never does.
\<close>

definition tie_grid :: UniformGrid where
  "tie_grid = UniformGrid_state (vec 0 0 0) (vec 20 20 10) (vec 10 10 10)"

definition tie_objects :: "Asteroid list" where
  "tie_objects = [\<lparr>position = vec 5 15 5, collisionRadius = 1, isActive = True\<rparr>]"

definition tie_ray :: Ray where
  "tie_ray = \<lparr>ray_position = vec 5 5 5, ray_direction = vec 1 1 0\<rparr>"

definition tie_free_ray :: Ray where
  "tie_free_ray = \<lparr>ray_position = vec 5 5 5, ray_direction = vec (1 / 2) 1 0\<rparr>"

text \<open>
  A grid whose cell count wraps: \<open>1300 * 2501 * 1321 = 2^32 + 4\<close>, so that \<open>totalCells\<close>
  is 4 and four cells are allocated; and an active object of radius \<open>0.5\<close> whose box lies
  inside the cell \<open>(10,10,0)\<close>.
\<close>

definition overflow_grid :: UniformGrid where
  "overflow_grid = UniformGrid_state (vec 0 0 0) (vec 2600 5002 2642) (vec 2 2 2)"

definition overflow_objects :: "Asteroid list" where
  "overflow_objects = [\<lparr>position = vec 21 21 1, collisionRadius = 1 / 2, isActive = True\<rparr>]"

text \<open>
  A grid of 2 x 1 x 1 cells and an active object far to the right of it. The object's
  position and the lower corner of its box scale to values below \<open>2^31\<close>, the upper corner
  to \<open>2^31\<close> itself. All coordinates are floats.
\<close>

definition far_grid :: UniformGrid where
  "far_grid = UniformGrid_state (vec 0 0 0) (vec 2 1 1) (vec 1 1 1)"

definition far_objects :: "Asteroid list" where
  "far_objects = [\<lparr>position = vec 2147483520 (1 / 2) (1 / 2), collisionRadius = 128,
                    isActive = True\<rparr>]"

section \<open>Lemmas\<close>

lemma wrap32_id: "- (2 ^ 31) \<le> v \<Longrightarrow> v < 2 ^ 31 \<Longrightarrow> wrap32 v = v"
  by (simp add: wrap32_def)

lemma wrap32_mod: "wrap32 v mod 2 ^ 32 = v mod 2 ^ 32"
proof -
  have "wrap32 v = (v + 2 ^ 31) mod 2 ^ 32 + (- (2 ^ 31))"
    by (simp add: wrap32_def)
  then have "wrap32 v mod 2 ^ 32 = ((v + 2 ^ 31) mod 2 ^ 32 + (- (2 ^ 31))) mod 2 ^ 32"
    by simp
  also have "\<dots> = (v + 2 ^ 31 + (- (2 ^ 31))) mod 2 ^ 32"
    by (rule mod_add_left_eq)
  finally show ?thesis by simp
qed

lemma wrap32_cong: "a mod 2 ^ 32 = b mod 2 ^ 32 \<Longrightarrow> wrap32 a = wrap32 b"
proof -
  assume "a mod 2 ^ 32 = b mod 2 ^ 32"
  then have "(a + 2 ^ 31) mod 2 ^ 32 = (b + 2 ^ 31) mod 2 ^ 32"
    by (metis mod_add_left_eq)
  then show ?thesis by (simp only: wrap32_def)
qed

lemma wrap32_add_left: "wrap32 (wrap32 a + b) = wrap32 (a + b)"
  by (rule wrap32_cong) (metis mod_add_left_eq wrap32_mod)

lemma wrap32_add_right: "wrap32 (a + wrap32 b) = wrap32 (a + b)"
  by (rule wrap32_cong) (metis mod_add_right_eq wrap32_mod)

lemma wrap32_mult_left: "wrap32 (wrap32 a * b) = wrap32 (a * b)"
  by (rule wrap32_cong) (metis mod_mult_left_eq wrap32_mod)

text \<open>The index is the exact expression, wrapped once.\<close>

lemma Get1DIndex_wrap:
  "Get1DIndex g ix iy iz = wrap32 (ix + iy * gridDimX g + iz * gridDimX g * gridDimY g)"
  by (simp add: Get1DIndex_def wrap32_add_left wrap32_add_right wrap32_mult_left)

lemma float_to_int_id: "- (2 ^ 31) \<le> v \<Longrightarrow> v < 2 ^ 31 \<Longrightarrow> float_to_int v = v"
  by (simp add: float_to_int_def)

lemma gridDim_range: "1 \<le> gridDim e c" "gridDim e c < 2 ^ 31"
  by (simp_all add: gridDim_def float_to_int_def Let_def)

lemma positiveCellSize_pos:
  "0 < vx (positiveCellSize c)" "0 < vy (positiveCellSize c)" "0 < vz (positiveCellSize c)"
  by (simp_all add: positiveCellSize_def)

lemma grid_inv_state:
  assumes "0 \<le> totalCells (UniformGrid_state worldMin worldMax cellSize)"
  shows "grid_inv (UniformGrid_state worldMin worldMax cellSize)"
  using assms gridDim_range(2)
  by (simp add: grid_inv_def UniformGrid_state_def Let_def gridDim_range(1) positiveCellSize_pos)

lemma grid_inv_init:
  assumes "UniformGrid_init worldMin worldMax cellSize = Inr g"
  shows "grid_inv g"
proof -
  from assms have "g = UniformGrid_state worldMin worldMax cellSize"
    and "0 \<le> totalCells (UniformGrid_state worldMin worldMax cellSize)"
    by (simp_all add: UniformGrid_init_def Let_def split: if_splits)
  then show ?thesis by (simp add: grid_inv_state)
qed

lemma same_shape_refl: "same_shape g g"
  by (simp add: same_shape_def)

lemma same_shape_trans: "same_shape g g' \<Longrightarrow> same_shape g' g'' \<Longrightarrow> same_shape g g''"
  unfolding same_shape_def
  by (metis UniformGrid.update_convs(8) UniformGrid.surjective UniformGrid.select_convs)

lemma same_shape_fields:
  assumes "same_shape g g'"
  shows "gridMinBounds g' = gridMinBounds g" "gridMaxBounds g' = gridMaxBounds g"
    "gridCellSize g' = gridCellSize g" "gridDimX g' = gridDimX g" "gridDimY g' = gridDimY g"
    "gridDimZ g' = gridDimZ g" "totalCells g' = totalCells g"
    "length (gridCells g') = length (gridCells g)"
proof -
  from assms have e: "g' = g\<lparr>gridCells := gridCells g'\<rparr>"
    and l: "length (gridCells g') = length (gridCells g)"
    by (simp_all add: same_shape_def)
  show "gridMinBounds g' = gridMinBounds g" by (subst e) simp
  show "gridMaxBounds g' = gridMaxBounds g" by (subst e) simp
  show "gridCellSize g' = gridCellSize g" by (subst e) simp
  show "gridDimX g' = gridDimX g" by (subst e) simp
  show "gridDimY g' = gridDimY g" by (subst e) simp
  show "gridDimZ g' = gridDimZ g" by (subst e) simp
  show "totalCells g' = totalCells g" by (subst e) simp
  show "length (gridCells g') = length (gridCells g)" by (rule l)
qed

lemma same_shape_update: "length cells = length (gridCells g) \<Longrightarrow> same_shape g (g\<lparr>gridCells := cells\<rparr>)"
  by (simp add: same_shape_def)

lemma same_shape_inv: "same_shape g g' \<Longrightarrow> grid_inv g' = grid_inv g"
  by (simp add: grid_inv_def same_shape_fields)

lemma same_shape_IsValidIndex: "same_shape g g' \<Longrightarrow> IsValidIndex g' = IsValidIndex g"
  by (simp add: IsValidIndex_def same_shape_fields fun_eq_iff)

lemma same_shape_Get1DIndex: "same_shape g g' \<Longrightarrow> Get1DIndex g' = Get1DIndex g"
  by (simp add: Get1DIndex_def same_shape_fields fun_eq_iff)

lemma same_shape_GetCellIndices: "same_shape g g' \<Longrightarrow> GetCellIndices g' = GetCellIndices g"
  by (simp add: GetCellIndices_def same_shape_fields fun_eq_iff)

lemma same_shape_lookup_cell: "same_shape g g' \<Longrightarrow> lookup_cell g' = lookup_cell g"
  by (simp add: lookup_cell_def same_shape_IsValidIndex same_shape_Get1DIndex same_shape_fields
        fun_eq_iff)

lemma same_shape_cells_fit: "same_shape g g' \<Longrightarrow> cells_fit g' = cells_fit g"
  by (simp add: cells_fit_def same_shape_fields)

lemma same_shape_convertible: "same_shape g g' \<Longrightarrow> convertible g' = convertible g"
  by (simp add: convertible_def same_shape_fields fun_eq_iff)

text \<open>When the product of the dimensions fits, \<open>totalCells\<close> is the product.\<close>

lemma totalCells_fit:
  assumes "grid_inv g" and "cells_fit g"
  shows "totalCells g = gridDimX g * gridDimY g * gridDimZ g"
proof -
  let ?nx = "gridDimX g" and ?ny = "gridDimY g" and ?nz = "gridDimZ g"
  from assms(1) have d: "1 \<le> ?nx" "1 \<le> ?ny" "1 \<le> ?nz"
    and t: "totalCells g = wrap32 (wrap32 (?nx * ?ny) * ?nz)"
    by (simp_all add: grid_inv_def)
  from assms(2) have f: "?nx * ?ny * ?nz < 2 ^ 31"
    by (simp add: cells_fit_def)
  have "1 * 1 \<le> ?nx * ?ny" using d by (intro mult_mono) simp_all
  then have p: "1 \<le> ?nx * ?ny" by simp
  then have "?nx * ?ny * 1 \<le> ?nx * ?ny * ?nz"
    using d(3) by (intro mult_left_mono) simp_all
  with f have "?nx * ?ny < 2 ^ 31" by simp
  with p have "wrap32 (?nx * ?ny) = ?nx * ?ny" by (intro wrap32_id) simp_all
  moreover have "wrap32 (?nx * ?ny * ?nz) = ?nx * ?ny * ?nz"
  proof (rule wrap32_id)
    have "0 \<le> ?nx * ?ny * ?nz" using p d(3) by simp
    then show "- (2 ^ 31) \<le> ?nx * ?ny * ?nz" by simp
  qed (rule f)
  ultimately show ?thesis by (simp add: t)
qed

lemma Get1DIndex_exact:
  assumes "grid_inv g" and "cells_fit g" and "IsValidIndex g ix iy iz"
  shows "Get1DIndex g ix iy iz = ix + iy * gridDimX g + iz * gridDimX g * gridDimY g"
    and "0 \<le> Get1DIndex g ix iy iz" and "Get1DIndex g ix iy iz < totalCells g"
proof -
  let ?nx = "gridDimX g" and ?ny = "gridDimY g" and ?nz = "gridDimZ g"
  let ?e = "ix + iy * ?nx + iz * ?nx * ?ny"
  from assms(3) have b: "0 \<le> ix" "ix < ?nx" "0 \<le> iy" "iy < ?ny" "0 \<le> iz" "iz < ?nz"
    by (simp_all add: IsValidIndex_def)
  note t = totalCells_fit [OF assms(1,2)]
  from assms(2) have f: "?nx * ?ny * ?nz < 2 ^ 31"
    by (simp add: cells_fit_def)
  from b have nn: "0 \<le> ?nx" "0 \<le> ?ny" by simp_all
  have y0: "0 \<le> iy * ?nx" using b nn by simp
  have z0: "0 \<le> iz * ?nx * ?ny" using b nn by simp
  have lo: "0 \<le> ?e" using b(1) y0 z0 by linarith
  have "iy + 1 \<le> ?ny" using b by simp
  then have "(iy + 1) * ?nx \<le> ?ny * ?nx" using nn by (intro mult_right_mono) simp_all
  then have y1: "iy * ?nx + ?nx \<le> ?nx * ?ny" by (simp add: algebra_simps)
  have "iz + 1 \<le> ?nz" using b by simp
  then have "(iz + 1) * (?nx * ?ny) \<le> ?nz * (?nx * ?ny)"
    using nn by (intro mult_right_mono) simp_all
  then have z1: "iz * ?nx * ?ny + ?nx * ?ny \<le> ?nx * ?ny * ?nz" by (simp add: algebra_simps)
  have hi: "?e < ?nx * ?ny * ?nz" using b(2) y1 z1 by linarith
  have "wrap32 ?e = ?e"
    using lo hi f by (intro wrap32_id) linarith+
  then show e: "Get1DIndex g ix iy iz = ?e" by (simp add: Get1DIndex_wrap)
  show "0 \<le> Get1DIndex g ix iy iz" unfolding e by (rule lo)
  show "Get1DIndex g ix iy iz < totalCells g" unfolding e t by (rule hi)
qed

lemma GetCellIndices_valid:
  assumes "grid_inv g"
  shows "IsValidIndex g (cell_x (GetCellIndices g p)) (cell_y (GetCellIndices g p))
           (cell_z (GetCellIndices g p))"
  using assms
  by (simp add: grid_inv_def IsValidIndex_def GetCellIndices_def Let_def min_less_iff_disj)

lemma lookup_cell_valid:
  assumes "grid_inv g" and "cells_fit g" and "IsValidIndex g ix iy iz"
  shows "lookup_cell g ix iy iz = Cell (nat (Get1DIndex g ix iy iz))"
proof -
  from assms(1) have "int (length (gridCells g)) = totalCells g"
    by (simp add: grid_inv_def)
  with Get1DIndex_exact(2,3) [OF assms] assms(3) show ?thesis
    by (simp add: lookup_cell_def Let_def)
qed

lemma lookup_cell_inv:
  assumes "grid_inv g" and "cells_fit g"
  shows "lookup_cell g ix iy iz =
           (if IsValidIndex g ix iy iz then Cell (nat (Get1DIndex g ix iy iz)) else NotValid)"
  using lookup_cell_valid [OF assms] by (simp add: lookup_cell_def)

lemma lookup_cell_length: "lookup_cell g ix iy iz = Cell k \<Longrightarrow> k < length (gridCells g)"
  by (auto simp: lookup_cell_def Let_def split: if_splits)

lemma Clear_length:
  "length (fold (\<lambda>i cells. cells[i := []]) [0..<n] cells) = length cells"
  by (induction n) simp_all

lemma Clear_nth:
  "k < length cells \<Longrightarrow>
   fold (\<lambda>i cells. cells[i := []]) [0..<n] cells ! k = (if k < n then [] else cells ! k)"
proof (induction n)
  case 0
  then show ?case by simp
next
  case (Suc n)
  let ?cs = "fold (\<lambda>i cells. cells[i := []]) [0..<n] cells"
  have "?cs[n := []] ! k = (if k = n then [] else ?cs ! k)"
    using Suc.prems by (simp add: nth_list_update Clear_length)
  with Suc show ?case by (simp add: less_Suc_eq)
qed

lemma Clear_shape: "same_shape g (Clear g)"
  by (simp add: Clear_def same_shape_def Clear_length)

lemma Clear_cells:
  assumes "grid_inv g" and "k < length (gridCells g)"
  shows "gridCells (Clear g) ! k = []"
  using assms by (simp add: Clear_def grid_inv_def Clear_nth)

lemma add_at_shape: "same_shape g (add_at i iz iy ix g)"
  by (simp add: add_at_def same_shape_def split: cell_lookup.splits)

lemma add_at_cells:
  assumes "k < length (gridCells g)"
  shows "set (gridCells (add_at i iz iy ix g) ! k) =
           set (gridCells g ! k) \<union> (if lookup_cell g ix iy iz = Cell k then {i} else {})"
proof (cases "lookup_cell g ix iy iz")
  case (Cell k')
  then have "k' < length (gridCells g)" by (rule lookup_cell_length)
  with Cell assms show ?thesis
    by (auto simp: add_at_def nth_list_update)
qed (simp_all add: add_at_def)

text \<open>A fold of steps that keep the shape, and that add to cell \<open>k\<close> what \<open>S\<close> says.\<close>

lemma fold_shape:
  assumes "\<And>x h. same_shape g h \<Longrightarrow> same_shape g (f x h)" and "same_shape g h"
  shows "same_shape g (fold f xs h)"
  using assms(2) by (induction xs arbitrary: h) (simp_all add: assms(1))

lemma fold_cells:
  assumes step: "\<And>x h. same_shape g h \<Longrightarrow>
             same_shape g (f x h) \<and> set (gridCells (f x h) ! k) = set (gridCells h ! k) \<union> S x"
    and "same_shape g h"
  shows "same_shape g (fold f xs h) \<and>
         set (gridCells (fold f xs h) ! k) = set (gridCells h ! k) \<union> (\<Union>x \<in> set xs. S x)"
  using assms(2)
proof (induction xs arbitrary: h)
  case Nil
  then show ?case by simp
next
  case (Cons x xs)
  from step [OF Cons.prems] have s: "same_shape g (f x h)"
    and c: "set (gridCells (f x h) ! k) = set (gridCells h ! k) \<union> S x"
    by simp_all
  from Cons.IH [OF s] c show ?case by auto
qed

lemma add_at_step:
  assumes "k < length (gridCells g)" and "same_shape g h"
  shows "same_shape g (add_at i iz iy ix h) \<and>
         set (gridCells (add_at i iz iy ix h) ! k) =
           set (gridCells h ! k) \<union> (if lookup_cell g ix iy iz = Cell k then {i} else {})"
proof -
  from assms have "k < length (gridCells h)"
    by (simp add: same_shape_fields)
  from add_at_cells [OF this] same_shape_trans [OF assms(2) add_at_shape]
  show ?thesis
    by (simp add: same_shape_lookup_cell [OF assms(2)])
qed

lemma Add_shape_from:
  assumes "same_shape g h"
  shows "same_shape g (Add h i b)"
proof -
  have x: "same_shape g (fold (add_at i iz iy) xs h')" if "same_shape g h'" for h' iz iy xs
    using _ that by (rule fold_shape) (rule same_shape_trans [OF _ add_at_shape])
  have y: "same_shape g (fold (\<lambda>iy. fold (add_at i iz iy) xs) ys h')"
    if "same_shape g h'" for h' iz xs ys
    using x that by (rule fold_shape)
  have "same_shape g (fold (\<lambda>iz. fold (\<lambda>iy. fold (add_at i iz iy) xs) ys) zs h)" for xs ys zs
    using y assms by (rule fold_shape)
  then show ?thesis by (simp add: Add_def Let_def)
qed

lemma Add_shape: "same_shape g (Add g i b)"
  using same_shape_refl by (rule Add_shape_from)

lemma BuildInstanced_shape: "same_shape g (BuildInstanced g instances)"
  unfolding BuildInstanced_def
  using _ Clear_shape by (rule fold_shape) (simp add: Add_shape_from)

lemma Add_step:
  assumes "k < length (gridCells g)" and "same_shape g h"
  shows "set (gridCells (Add h i b) ! k) =
           set (gridCells h ! k) \<union> (if k \<in> box_cells g b then {i} else {})"
proof -
  let ?lo = "GetCellIndices g (bmin b)" and ?hi = "GetCellIndices g (bmax b)"
  let ?S = "\<lambda>iz iy ix. if lookup_cell g ix iy iz = Cell k then {i} else {}"
  have x: "same_shape g (fold (add_at i iz iy) xs h') \<and>
           set (gridCells (fold (add_at i iz iy) xs h') ! k) =
             set (gridCells h' ! k) \<union> (\<Union>ix \<in> set xs. ?S iz iy ix)"
    if "same_shape g h'" for h' iz iy xs
    using add_at_step [OF assms(1)] that by (rule fold_cells)
  have y: "same_shape g (fold (\<lambda>iy. fold (add_at i iz iy) xs) ys h') \<and>
           set (gridCells (fold (\<lambda>iy. fold (add_at i iz iy) xs) ys h') ! k) =
             set (gridCells h' ! k) \<union> (\<Union>iy \<in> set ys. \<Union>ix \<in> set xs. ?S iz iy ix)"
    if "same_shape g h'" for h' iz xs ys
    using x that by (rule fold_cells)
  have z: "same_shape g (fold (\<lambda>iz. fold (\<lambda>iy. fold (add_at i iz iy) xs) ys) zs h) \<and>
           set (gridCells (fold (\<lambda>iz. fold (\<lambda>iy. fold (add_at i iz iy) xs) ys) zs h) ! k) =
             set (gridCells h ! k) \<union>
             (\<Union>iz \<in> set zs. \<Union>iy \<in> set ys. \<Union>ix \<in> set xs. ?S iz iy ix)"
    for xs ys zs
    using y assms(2) by (rule fold_cells)
  have "(\<Union>iz \<in> {cell_z ?lo..cell_z ?hi}. \<Union>iy \<in> {cell_y ?lo..cell_y ?hi}.
          \<Union>ix \<in> {cell_x ?lo..cell_x ?hi}. ?S iz iy ix) =
        (if k \<in> box_cells g b then {i} else {})" (is "?U = _")
  proof (cases "k \<in> box_cells g b")
    case True
    then obtain ix iy iz where r: "cell_x ?lo \<le> ix" "ix \<le> cell_x ?hi" "cell_y ?lo \<le> iy"
      "iy \<le> cell_y ?hi" "cell_z ?lo \<le> iz" "iz \<le> cell_z ?hi"
      and k: "lookup_cell g ix iy iz = Cell k"
      by (auto simp: box_cells_def)
    from k have "i \<in> ?S iz iy ix" by simp
    with r have "i \<in> (\<Union>ix \<in> {cell_x ?lo..cell_x ?hi}. ?S iz iy ix)"
      by - (rule UN_I [of ix], simp_all)
    with r have "i \<in> (\<Union>iy \<in> {cell_y ?lo..cell_y ?hi}.
                        \<Union>ix \<in> {cell_x ?lo..cell_x ?hi}. ?S iz iy ix)"
      by - (rule UN_I [of iy], simp_all)
    with r have "i \<in> ?U"
      by - (rule UN_I [of iz], simp_all)
    moreover have "?U \<subseteq> {i}" by (auto split: if_splits)
    ultimately have "?U = {i}" by blast
    with True show ?thesis by simp
  next
    case False
    have "?S iz iy ix = {}"
      if "iz \<in> {cell_z ?lo..cell_z ?hi}" "iy \<in> {cell_y ?lo..cell_y ?hi}"
         "ix \<in> {cell_x ?lo..cell_x ?hi}" for ix iy iz
    proof (rule ccontr)
      assume "?S iz iy ix \<noteq> {}"
      then have "lookup_cell g ix iy iz = Cell k" by (simp split: if_splits)
      with that have "k \<in> box_cells g b" by (auto simp: box_cells_def)
      with False show False by simp
    qed
    then have "?U = {}" by blast
    with False show ?thesis by simp
  qed
  with z [of "[cell_x ?lo..cell_x ?hi]" "[cell_y ?lo..cell_y ?hi]" "[cell_z ?lo..cell_z ?hi]"]
  show ?thesis
    by (simp add: Add_def Let_def same_shape_GetCellIndices [OF assms(2)])
qed

text \<open>The contents of a cell after a build.\<close>

lemma BuildInstanced_cells:
  assumes "grid_inv g" and "k < length (gridCells g)"
  shows "set (gridCells (BuildInstanced g instances) ! k) =
           {int i | i. i < length instances \<and> isActive (instances ! i) \<and>
                       k \<in> box_cells g (instanceBounds (instances ! i))}"
proof -
  let ?f = "\<lambda>i g'. if \<not> isActive (instances ! i) then g'
                    else Add g' (int i) (instanceBounds (instances ! i))"
  let ?S = "\<lambda>i. if isActive (instances ! i) \<and> k \<in> box_cells g (instanceBounds (instances ! i))
                 then {int i} else {}"
  have step: "same_shape g (?f i h) \<and> set (gridCells (?f i h) ! k) = set (gridCells h ! k) \<union> ?S i"
    if "same_shape g h" for i h
    using Add_step [OF assms(2) that] Add_shape_from [OF that] that by simp
  have "same_shape g (fold ?f [0..<length instances] (Clear g)) \<and>
        set (gridCells (fold ?f [0..<length instances] (Clear g)) ! k) =
          set (gridCells (Clear g) ! k) \<union> (\<Union>i \<in> set [0..<length instances]. ?S i)"
    using step Clear_shape by (rule fold_cells)
  then show ?thesis
    by (auto simp: BuildInstanced_def Clear_cells [OF assms] split: if_splits)
qed

lemma collect_cells_at: "collect g ix iy iz acc = acc \<union> cells_at g ix iy iz"
  by (simp add: collect_def cells_at_def split: cell_lookup.splits)

lemma finite_cells_at: "finite (cells_at g ix iy iz)"
  by (simp add: cells_at_def split: cell_lookup.splits)

lemma finite_stored: "finite (stored g)"
  by (simp add: stored_def)

lemma nth_stored: "k < length (gridCells g) \<Longrightarrow> set (gridCells g ! k) \<subseteq> stored g"
  unfolding stored_def using nth_mem [of k "gridCells g"] by blast

lemma cells_at_stored: "cells_at g ix iy iz \<subseteq> stored g"
proof (cases "lookup_cell g ix iy iz")
  case (Cell k)
  then have "k < length (gridCells g)"
    by (auto simp: lookup_cell_def Let_def split: if_splits)
  with Cell nth_stored show ?thesis by (simp add: cells_at_def)
qed (simp_all add: cells_at_def)

lemma cells_at_valid:
  assumes "grid_inv g" and "cells_fit g" and "IsValidIndex g ix iy iz"
  shows "cells_at g ix iy iz = set (gridCells g ! nat (Get1DIndex g ix iy iz))"
  using assms by (simp add: cells_at_def lookup_cell_valid)

lemma finite_neighbourhood: "finite (neighbourhood g c)"
  by (simp add: neighbourhood_def finite_cells_at)

lemma Query_fold:
  "fold (\<lambda>dz. fold (\<lambda>dy. fold (\<lambda>dx.
      collect g (cell_x c + dx) (cell_y c + dy) (cell_z c + dz)) [-1, 0, 1]) [-1, 0, 1]) [-1, 0, 1] {}
   = neighbourhood g c"
  unfolding neighbourhood_def collect_cells_at by (simp add: Un_ac)

lemma set_Query: "set (Query g p) = neighbourhood g (GetCellIndices g p)"
  unfolding Query_def Let_def Query_fold by (simp add: finite_neighbourhood)

lemma centre_in_neighbourhood: "cells_at g (cell_x c) (cell_y c) (cell_z c) \<subseteq> neighbourhood g c"
  by (auto simp: neighbourhood_def)

lemma neighbourhood_stored: "neighbourhood g c \<subseteq> stored g"
  using cells_at_stored by (fastforce simp: neighbourhood_def)

lemma advance_uniqueIndices: "uniqueIndices (advance g ray a st) = uniqueIndices st"
  by (cases a) simp_all

lemma ray_loop_bounds:
  "uniqueIndices st \<subseteq> ray_loop pick g ray maxDistance st \<and>
   ray_loop pick g ray maxDistance st \<subseteq> uniqueIndices st \<union> stored g"
proof (induction pick g ray maxDistance st rule: ray_loop.induct)
  case (1 pick g ray maxDistance st)
  let ?st' = "advance g ray (pick st) st"
  let ?st'' = "?st'\<lparr>uniqueIndices :=
                 collect g (cur_ix ?st') (cur_iy ?st') (cur_iz ?st') (uniqueIndices ?st')\<rparr>"
  show ?case
  proof (cases "t_less (currentT st) (Fin maxDistance) \<and> \<not> t_ge (currentT ?st') (Fin maxDistance)
                \<and> IsValidIndex g (cur_ix ?st') (cur_iy ?st') (cur_iz ?st')")
    case True
    then have e: "ray_loop pick g ray maxDistance st = ray_loop pick g ray maxDistance ?st''"
      by (subst ray_loop.simps) (simp add: Let_def)
    from True have "uniqueIndices ?st'' \<subseteq> ray_loop pick g ray maxDistance ?st'' \<and>
        ray_loop pick g ray maxDistance ?st'' \<subseteq> uniqueIndices ?st'' \<union> stored g"
      by (intro "1.IH") simp_all
    moreover have "uniqueIndices ?st'' =
        uniqueIndices st \<union> cells_at g (cur_ix ?st') (cur_iy ?st') (cur_iz ?st')"
      by (simp add: collect_cells_at advance_uniqueIndices)
    ultimately show ?thesis
      unfolding e using cells_at_stored [of g "cur_ix ?st'" "cur_iy ?st'" "cur_iz ?st'"] by blast
  next
    case False
    then have "ray_loop pick g ray maxDistance st = uniqueIndices st"
      by (subst ray_loop.simps) (auto simp: Let_def advance_uniqueIndices)
    then show ?thesis by simp
  qed
qed

lemma finite_ray_loop:
  assumes "finite (uniqueIndices st)"
  shows "finite (ray_loop pick g ray maxDistance st)"
  using ray_loop_bounds [of st pick g ray maxDistance] assms finite_stored [of g]
  by (meson finite_UnI finite_subset)

lemma ray_start_simps:
  "cur_ix (ray_start g ray) = cell_x (GetCellIndices g (ray_position ray))"
  "cur_iy (ray_start g ray) = cell_y (GetCellIndices g (ray_position ray))"
  "cur_iz (ray_start g ray) = cell_z (GetCellIndices g (ray_position ray))"
  "currentT (ray_start g ray) = Fin 0"
  "uniqueIndices (ray_start g ray) =
     cells_at g (cell_x (GetCellIndices g (ray_position ray)))
       (cell_y (GetCellIndices g (ray_position ray))) (cell_z (GetCellIndices g (ray_position ray)))"
  by (simp_all add: ray_start_def Let_def collect_cells_at)

lemma set_QueryRay:
  "set (QueryRay g ray maxDistance) =
     (if Vector3LengthSqr (ray_direction ray) < 1 / 10000
      then neighbourhood g (GetCellIndices g (ray_position ray))
      else ray_loop choose_axis g ray maxDistance (ray_start g ray))"
  by (simp add: QueryRay_def set_Query finite_ray_loop ray_start_simps finite_cells_at)

lemma ray_loop_start_stored: "ray_loop pick g ray maxDistance (ray_start g ray) \<subseteq> stored g"
proof -
  have "uniqueIndices (ray_start g ray) \<subseteq> stored g"
    by (simp add: ray_start_simps cells_at_stored)
  with ray_loop_bounds [of "ray_start g ray" pick g ray maxDistance] show ?thesis
    by blast
qed

lemma QueryRay_stored: "set (QueryRay g ray maxDistance) \<subseteq> stored g"
  by (simp add: set_QueryRay ray_loop_start_stored neighbourhood_stored)

lemma ray_loop_fuel_enough:
  "remaining g ray st < n \<Longrightarrow>
   ray_loop_fuel n pick g ray maxDistance st = Some (ray_loop pick g ray maxDistance st)"
proof (induction n arbitrary: st)
  case 0
  then show ?case by simp
next
  case (Suc n)
  let ?st' = "advance g ray (pick st) st"
  let ?st'' = "?st'\<lparr>uniqueIndices :=
                 collect g (cur_ix ?st') (cur_iy ?st') (cur_iz ?st') (uniqueIndices ?st')\<rparr>"
  show ?case
  proof (cases "t_less (currentT st) (Fin maxDistance) \<and> \<not> t_ge (currentT ?st') (Fin maxDistance)
                \<and> IsValidIndex g (cur_ix ?st') (cur_iy ?st') (cur_iz ?st')")
    case True
    then have "remaining g ray ?st'' < remaining g ray st"
      by (cases "pick st")
         (auto simp: remaining_def IsValidIndex_def stepX_def stepY_def stepZ_def)
    with Suc.prems have "remaining g ray ?st'' < n" by simp
    from Suc.IH [OF this] True show ?thesis
      by (subst ray_loop.simps) (simp add: Let_def)
  next
    case False
    then show ?thesis
      by (subst ray_loop.simps) (auto simp: Let_def)
  qed
qed

lemma remaining_start:
  assumes "grid_inv g"
  shows "int (remaining g ray (ray_start g ray)) \<le> gridDimX g + gridDimY g + gridDimZ g"
  using GetCellIndices_valid [OF assms, of "ray_position ray"]
  by (simp add: remaining_def ray_start_simps IsValidIndex_def)

lemma Query_contains_centre:
  assumes "j \<in> cells_at g (cell_x (GetCellIndices g p)) (cell_y (GetCellIndices g p))
                 (cell_z (GetCellIndices g p))"
  shows "j \<in> set (Query g p)"
  using assms centre_in_neighbourhood [of g "GetCellIndices g p"]
  by (auto simp: set_Query)

lemma clamp_mono: "i \<le> j \<Longrightarrow> max 0 (min i n) \<le> max (0::int) (min j n)"
  by simp

text \<open>Between positions whose scaled coordinates are values of \<^verbatim>\<open>int\<close>, the cell
  coordinates grow with the position.\<close>

lemma convertible_between:
  assumes "grid_inv g" and "convertible g p" and "convertible g q"
    and "vx p \<le> vx r" "vx r \<le> vx q" "vy p \<le> vy r" "vy r \<le> vy q" "vz p \<le> vz r" "vz r \<le> vz q"
  shows "convertible g r"
proof -
  from assms(1) have c: "0 < vx (gridCellSize g)" "0 < vy (gridCellSize g)" "0 < vz (gridCellSize g)"
    by (simp_all add: grid_inv_def)
  have m: "\<lfloor>(a - l) / s\<rfloor> \<le> \<lfloor>(b - l) / s\<rfloor>" if "a \<le> b" "0 < s" for a b l s :: real
    using that by (intro floor_mono divide_right_mono) simp_all
  note mx = m [OF assms(4) c(1), of "vx (gridMinBounds g)"] m [OF assms(5) c(1), of "vx (gridMinBounds g)"]
  note my = m [OF assms(6) c(2), of "vy (gridMinBounds g)"] m [OF assms(7) c(2), of "vy (gridMinBounds g)"]
  note mz = m [OF assms(8) c(3), of "vz (gridMinBounds g)"] m [OF assms(9) c(3), of "vz (gridMinBounds g)"]
  from assms(2,3) mx my mz show ?thesis
    unfolding convertible_def by linarith
qed

lemma GetCellIndices_convertible:
  assumes "convertible g p"
  shows "cell_x (GetCellIndices g p) =
           max 0 (min \<lfloor>(vx p - vx (gridMinBounds g)) / vx (gridCellSize g)\<rfloor> (gridDimX g - 1))"
    and "cell_y (GetCellIndices g p) =
           max 0 (min \<lfloor>(vy p - vy (gridMinBounds g)) / vy (gridCellSize g)\<rfloor> (gridDimY g - 1))"
    and "cell_z (GetCellIndices g p) =
           max 0 (min \<lfloor>(vz p - vz (gridMinBounds g)) / vz (gridCellSize g)\<rfloor> (gridDimZ g - 1))"
  using assms
  by (simp_all add: GetCellIndices_def Let_def Vector3Subtract_def convertible_def float_to_int_def)

lemma GetCellIndices_mono:
  assumes "grid_inv g" and "convertible g p" and "convertible g q"
  shows "vx p \<le> vx q \<Longrightarrow> cell_x (GetCellIndices g p) \<le> cell_x (GetCellIndices g q)"
    and "vy p \<le> vy q \<Longrightarrow> cell_y (GetCellIndices g p) \<le> cell_y (GetCellIndices g q)"
    and "vz p \<le> vz q \<Longrightarrow> cell_z (GetCellIndices g p) \<le> cell_z (GetCellIndices g q)"
proof -
  from assms(1) have c: "0 < vx (gridCellSize g)" "0 < vy (gridCellSize g)" "0 < vz (gridCellSize g)"
    by (simp_all add: grid_inv_def)
  have m: "max 0 (min \<lfloor>(a - l) / s\<rfloor> n) \<le> max 0 (min \<lfloor>(b - l) / s\<rfloor> n)"
    if "a \<le> b" "0 < s" for a b l s :: real and n :: int
    using that by (intro clamp_mono floor_mono divide_right_mono) simp_all
  show "cell_x (GetCellIndices g p) \<le> cell_x (GetCellIndices g q)" if "vx p \<le> vx q"
    unfolding GetCellIndices_convertible [OF assms(2)] GetCellIndices_convertible [OF assms(3)]
    using that c(1) by (rule m)
  show "cell_y (GetCellIndices g p) \<le> cell_y (GetCellIndices g q)" if "vy p \<le> vy q"
    unfolding GetCellIndices_convertible [OF assms(2)] GetCellIndices_convertible [OF assms(3)]
    using that c(2) by (rule m)
  show "cell_z (GetCellIndices g p) \<le> cell_z (GetCellIndices g q)" if "vz p \<le> vz q"
    unfolding GetCellIndices_convertible [OF assms(2)] GetCellIndices_convertible [OF assms(3)]
    using that c(3) by (rule m)
qed

lemma boundsRadius_pos: "0 < boundsRadius a"
  by (simp add: boundsRadius_def Let_def)

lemma boundsRadius_le: "boundsRadius a \<le> max (collisionRadius a) (1 / 2)"
  by (simp add: boundsRadius_def Let_def)

lemma instanceBounds_simps:
  "vx (bmin (instanceBounds a)) = vx (position a) - boundsRadius a"
  "vy (bmin (instanceBounds a)) = vy (position a) - boundsRadius a"
  "vz (bmin (instanceBounds a)) = vz (position a) - boundsRadius a"
  "vx (bmax (instanceBounds a)) = vx (position a) + boundsRadius a"
  "vy (bmax (instanceBounds a)) = vy (position a) + boundsRadius a"
  "vz (bmax (instanceBounds a)) = vz (position a) + boundsRadius a"
  by (simp_all add: instanceBounds_def Let_def)

text \<open>What a build stores when the cell count fits: an active instance is in every cell
  between the cells of the two corners of its box.\<close>

lemma BuildInstanced_stores:
  assumes "grid_inv g" and "cells_fit g" and "i < length instances" and "isActive (instances ! i)"
    and "cell_x (GetCellIndices g (bmin (instanceBounds (instances ! i)))) \<le> ix"
    and "ix \<le> cell_x (GetCellIndices g (bmax (instanceBounds (instances ! i))))"
    and "cell_y (GetCellIndices g (bmin (instanceBounds (instances ! i)))) \<le> iy"
    and "iy \<le> cell_y (GetCellIndices g (bmax (instanceBounds (instances ! i))))"
    and "cell_z (GetCellIndices g (bmin (instanceBounds (instances ! i)))) \<le> iz"
    and "iz \<le> cell_z (GetCellIndices g (bmax (instanceBounds (instances ! i))))"
  shows "IsValidIndex g ix iy iz"
    and "int i \<in> set (gridCells (BuildInstanced g instances) ! nat (Get1DIndex g ix iy iz))"
    and "int i \<in> cells_at (BuildInstanced g instances) ix iy iz"
proof -
  let ?b = "instanceBounds (instances ! i)" and ?g' = "BuildInstanced g instances"
  show v: "IsValidIndex g ix iy iz"
    using GetCellIndices_valid [OF assms(1), of "bmin ?b"]
      GetCellIndices_valid [OF assms(1), of "bmax ?b"] assms(5-10)
    by (simp add: IsValidIndex_def)
  let ?k = "nat (Get1DIndex g ix iy iz)"
  have l: "lookup_cell g ix iy iz = Cell ?k"
    using assms(1,2) v by (rule lookup_cell_valid)
  then have k: "?k < length (gridCells g)" by (rule lookup_cell_length)
  have "?k \<in> box_cells g ?b"
    unfolding box_cells_def using assms(5-10) l by blast
  with BuildInstanced_cells [OF assms(1) k, of instances] assms(3,4)
  have m: "int i \<in> set (gridCells ?g' ! ?k)"
    by auto
  show "int i \<in> set (gridCells ?g' ! ?k)" by (rule m)
  have s: "same_shape g ?g'" by (rule BuildInstanced_shape)
  from l have "lookup_cell ?g' ix iy iz = Cell ?k"
    by (simp add: same_shape_lookup_cell [OF s])
  with m show "int i \<in> cells_at ?g' ix iy iz"
    by (simp add: cells_at_def)
qed

lemma BuildInstanced_stored:
  assumes "grid_inv g"
  shows "stored (BuildInstanced g instances) \<subseteq>
           {int i | i. i < length instances \<and> isActive (instances ! i)}"
proof
  fix j assume "j \<in> stored (BuildInstanced g instances)"
  then obtain cell where "cell \<in> set (gridCells (BuildInstanced g instances))" "j \<in> set cell"
    by (auto simp: stored_def)
  then obtain k where k: "k < length (gridCells (BuildInstanced g instances))"
    and j: "j \<in> set (gridCells (BuildInstanced g instances) ! k)"
    by (metis in_set_conv_nth)
  from k BuildInstanced_shape [of g instances] have "k < length (gridCells g)"
    by (simp add: same_shape_fields)
  from BuildInstanced_cells [OF assms this, of instances] j
  show "j \<in> {int i | i. i < length instances \<and> isActive (instances ! i)}"
    by auto
qed

lemma BuildInstanced_stores_position:
  assumes "grid_inv g" and "cells_fit g" and "i < length instances" and "isActive (instances ! i)"
    and "convertible g (bmin (instanceBounds (instances ! i)))"
    and "convertible g (bmax (instanceBounds (instances ! i)))"
  shows "int i \<in> cells_at (BuildInstanced g instances)
           (cell_x (GetCellIndices g (position (instances ! i))))
           (cell_y (GetCellIndices g (position (instances ! i))))
           (cell_z (GetCellIndices g (position (instances ! i))))"
  using assms(1,2,3,4)
proof (rule BuildInstanced_stores(3))
  let ?a = "instances ! i"
  note r = boundsRadius_pos [of ?a]
  have p: "convertible g (position ?a)"
    using assms(1,5,6) by (rule convertible_between) (use r in \<open>simp_all add: instanceBounds_simps\<close>)
  note lo = GetCellIndices_mono [OF assms(1,5) p]
  note hi = GetCellIndices_mono [OF assms(1) p assms(6)]
  show "cell_x (GetCellIndices g (bmin (instanceBounds ?a))) \<le> cell_x (GetCellIndices g (position ?a))"
    using r by (intro lo) (simp add: instanceBounds_simps)
  show "cell_x (GetCellIndices g (position ?a)) \<le> cell_x (GetCellIndices g (bmax (instanceBounds ?a)))"
    using r by (intro hi) (simp add: instanceBounds_simps)
  show "cell_y (GetCellIndices g (bmin (instanceBounds ?a))) \<le> cell_y (GetCellIndices g (position ?a))"
    using r by (intro lo) (simp add: instanceBounds_simps)
  show "cell_y (GetCellIndices g (position ?a)) \<le> cell_y (GetCellIndices g (bmax (instanceBounds ?a)))"
    using r by (intro hi) (simp add: instanceBounds_simps)
  show "cell_z (GetCellIndices g (bmin (instanceBounds ?a))) \<le> cell_z (GetCellIndices g (position ?a))"
    using r by (intro lo) (simp add: instanceBounds_simps)
  show "cell_z (GetCellIndices g (position ?a)) \<le> cell_z (GetCellIndices g (bmax (instanceBounds ?a)))"
    using r by (intro hi) (simp add: instanceBounds_simps)
qed

lemma box_cells_single:
  assumes "GetCellIndices g (bmin b) = c" and "GetCellIndices g (bmax b) = c"
  shows "box_cells g b = {k. lookup_cell g (cell_x c) (cell_y c) (cell_z c) = Cell k}"
proof -
  have "cell_x c \<le> ix \<and> ix \<le> cell_x c \<and> cell_y c \<le> iy \<and> iy \<le> cell_y c \<and>
        cell_z c \<le> iz \<and> iz \<le> cell_z c \<longleftrightarrow> ix = cell_x c \<and> iy = cell_y c \<and> iz = cell_z c"
    for ix iy iz by auto
  then show ?thesis
    unfolding box_cells_def assms by auto
qed

text \<open>The two tie-break rules.\<close>

lemma t_le_less: "t_le a b \<longleftrightarrow> \<not> t_less b a"
  by (cases a; cases b) auto

lemma unique_min_choose:
  assumes "unique_min (tMaxX st) (tMaxY st) (tMaxZ st)"
  shows "choose_axis_xyz st = choose_axis st"
  using assms
  by (cases "tMaxX st"; cases "tMaxY st"; cases "tMaxZ st")
     (auto simp: unique_min_def choose_axis_def choose_axis_xyz_def)

text \<open>Read as a choice of the smallest value, the nest of strict comparisons of the code
  prefers z to y and y to x on equal values.\<close>

lemma choose_axis_zyx:
  "choose_axis st =
     (if t_le (tMaxZ st) (tMaxX st) \<and> t_le (tMaxZ st) (tMaxY st) then AxisZ
      else if t_le (tMaxY st) (tMaxX st) then AxisY
      else AxisX)"
  by (cases "tMaxX st"; cases "tMaxY st"; cases "tMaxZ st")
     (auto simp: choose_axis_def)

lemma ray_loop_tie_free:
  "ray_tie_free g ray maxDistance st \<Longrightarrow>
   ray_loop choose_axis_xyz g ray maxDistance st = ray_loop choose_axis g ray maxDistance st"
proof (induction g ray maxDistance st rule: ray_tie_free.induct)
  case (1 g ray maxDistance st)
  let ?st' = "advance g ray (choose_axis st) st"
  let ?st'' = "?st'\<lparr>uniqueIndices :=
                 collect g (cur_ix ?st') (cur_iy ?st') (cur_iz ?st') (uniqueIndices ?st')\<rparr>"
  show ?case
  proof (cases "t_less (currentT st) (Fin maxDistance)")
    case False
    then show ?thesis
      by (subst ray_loop.simps, subst (2) ray_loop.simps) simp
  next
    case True
    with "1.prems" have u: "unique_min (tMaxX st) (tMaxY st) (tMaxZ st)"
      by (subst (asm) ray_tie_free.simps) simp
    then have c: "choose_axis_xyz st = choose_axis st" by (rule unique_min_choose)
    show ?thesis
    proof (cases "\<not> t_ge (currentT ?st') (Fin maxDistance)
                  \<and> IsValidIndex g (cur_ix ?st') (cur_iy ?st') (cur_iz ?st')")
      case False
      with True c show ?thesis
        by (subst ray_loop.simps, subst (2) ray_loop.simps) (auto simp: Let_def)
    next
      case cont: True
      with True "1.prems" have "ray_tie_free g ray maxDistance ?st''"
        by (subst (asm) ray_tie_free.simps) (simp add: Let_def)
      with True cont have "ray_loop choose_axis_xyz g ray maxDistance ?st'' =
                           ray_loop choose_axis g ray maxDistance ?st''"
        by (intro "1.IH") simp_all
      with True cont c show ?thesis
        by (subst ray_loop.simps, subst (2) ray_loop.simps) (simp add: Let_def)
    qed
  qed
qed

text \<open>The concrete scenario, evaluated.\<close>

lemma scenario_grid_fields:
  "gridMinBounds scenario_grid = vec (-50) (-50) (-50)"
  "gridMaxBounds scenario_grid = vec 50 50 50"
  "gridCellSize scenario_grid = vec 10 10 10"
  "gridDimX scenario_grid = 10" "gridDimY scenario_grid = 10" "gridDimZ scenario_grid = 10"
  "totalCells scenario_grid = 1000"
  "gridCells scenario_grid = replicate 1000 []"
proof -
  have d: "gridDim 100 10 = 10"
    by (simp add: gridDim_def float_to_int_def)
  have w: "wrap32 100 = 100" "wrap32 1000 = 1000"
    by (simp_all add: wrap32_def)
  show "gridMinBounds scenario_grid = vec (-50) (-50) (-50)"
    "gridMaxBounds scenario_grid = vec 50 50 50"
    "gridCellSize scenario_grid = vec 10 10 10"
    "gridDimX scenario_grid = 10" "gridDimY scenario_grid = 10" "gridDimZ scenario_grid = 10"
    "totalCells scenario_grid = 1000"
    "gridCells scenario_grid = replicate 1000 []"
    by (simp_all add: scenario_grid_def UniformGrid_state_def Let_def positiveCellSize_def
          Vector3Subtract_def d w)
qed

lemma scenario_grid_init:
  "UniformGrid_init (vec (-50) (-50) (-50)) (vec 50 50 50) (vec 10 10 10) = Inr scenario_grid"
proof -
  have "\<not> totalCells scenario_grid < 0"
    by (simp add: scenario_grid_fields)
  then show ?thesis
    unfolding UniformGrid_init_def Let_def scenario_grid_def by (rule if_not_P)
qed

lemma scenario_grid_inv: "grid_inv scenario_grid"
  using scenario_grid_init by (rule grid_inv_init)

lemma scenario_grid_fit: "cells_fit scenario_grid"
  by (simp add: cells_fit_def scenario_grid_fields)

lemma scenario_built_shape: "same_shape scenario_grid (BuildInstanced scenario_grid scenario_objects)"
  by (rule BuildInstanced_shape)

lemmas scenario_built_fields =
  same_shape_fields [OF scenario_built_shape, unfolded scenario_grid_fields]

lemma scenario_built_inv: "grid_inv (BuildInstanced scenario_grid scenario_objects)"
  using scenario_grid_inv by (simp add: same_shape_inv [OF scenario_built_shape])

lemma scenario_built_fit: "cells_fit (BuildInstanced scenario_grid scenario_objects)"
  using scenario_grid_fit by (simp add: same_shape_cells_fit [OF scenario_built_shape])

lemma scenario_box:
  "box_cells scenario_grid (instanceBounds (scenario_objects ! 0)) = {555}"
proof -
  have c: "GetCellIndices scenario_grid (bmin (instanceBounds (scenario_objects ! 0))) =
          \<lparr>cell_x = 5, cell_y = 5, cell_z = 5\<rparr>"
      "GetCellIndices scenario_grid (bmax (instanceBounds (scenario_objects ! 0))) =
          \<lparr>cell_x = 5, cell_y = 5, cell_z = 5\<rparr>"
    by (simp_all add: GetCellIndices_def Let_def Vector3Subtract_def scenario_grid_fields
          instanceBounds_def boundsRadius_def scenario_objects_def float_to_int_def)
  have "lookup_cell scenario_grid 5 5 5 = Cell 555"
    by (simp add: lookup_cell_def IsValidIndex_def Get1DIndex_def wrap32_def Let_def
          scenario_grid_fields)
  then show ?thesis
    unfolding box_cells_single [OF c] by simp
qed

lemma scenario_cells:
  assumes "k < 1000"
  shows "set (gridCells (BuildInstanced scenario_grid scenario_objects) ! k) =
           (if k = 555 then {0} else {})"
proof -
  from assms have "k < length (gridCells scenario_grid)"
    by (simp add: scenario_grid_fields)
  from BuildInstanced_cells [OF scenario_grid_inv this, of scenario_objects]
  have "set (gridCells (BuildInstanced scenario_grid scenario_objects) ! k) =
          {int i | i. i < length scenario_objects \<and> isActive (scenario_objects ! i) \<and>
                      k \<in> box_cells scenario_grid (instanceBounds (scenario_objects ! i))}"
    by simp
  also have "\<dots> = (if k = 555 then {0} else {})"
    using scenario_box by (auto simp: scenario_objects_def)
  finally show ?thesis .
qed

lemma scenario_cells_at:
  assumes "0 \<le> ix" "ix < 10"
  shows "cells_at (BuildInstanced scenario_grid scenario_objects) ix 5 5 =
           (if ix = 5 then {0} else {})"
proof -
  let ?g = "BuildInstanced scenario_grid scenario_objects"
  have v: "IsValidIndex ?g ix 5 5"
    using assms by (simp add: IsValidIndex_def scenario_built_fields)
  from Get1DIndex_exact(1) [OF scenario_built_inv scenario_built_fit v]
  have k: "Get1DIndex ?g ix 5 5 = ix + 550"
    by (simp add: scenario_built_fields)
  have "nat (ix + 550) < 1000" using assms by linarith
  from scenario_cells [OF this] cells_at_valid [OF scenario_built_inv scenario_built_fit v] k
  have "cells_at ?g ix 5 5 = (if nat (ix + 550) = 555 then {0} else {})"
    by simp
  moreover have "nat (ix + 550) = 555 \<longleftrightarrow> ix = 5"
    by linarith
  ultimately show ?thesis by simp
qed

lemma scenario_ray_start:
  "ray_start (BuildInstanced scenario_grid scenario_objects) scenario_ray =
     \<lparr>cur_ix = 0, cur_iy = 5, cur_iz = 5, tMaxX = Fin 20, tMaxY = PInf, tMaxZ = PInf,
      currentT = Fin 0, uniqueIndices = {}\<rparr>"
  by (simp add: ray_start_def Let_def GetCellIndices_def Vector3Subtract_def scenario_built_fields
        scenario_ray_def initTMax_def stepX_def stepY_def stepZ_def collect_cells_at
        scenario_cells_at float_to_int_def)

lemma scenario_step:
  assumes "0 \<le> i" "i < 9" "t < d"
  shows "ray_loop choose_axis (BuildInstanced scenario_grid scenario_objects) scenario_ray d
           \<lparr>cur_ix = i, cur_iy = 5, cur_iz = 5, tMaxX = Fin t, tMaxY = PInf, tMaxZ = PInf,
            currentT = Fin s, uniqueIndices = u\<rparr> =
         (if s < d then
           ray_loop choose_axis (BuildInstanced scenario_grid scenario_objects) scenario_ray d
           \<lparr>cur_ix = i + 1, cur_iy = 5, cur_iz = 5, tMaxX = Fin (t + 10), tMaxY = PInf, tMaxZ = PInf,
            currentT = Fin t, uniqueIndices = u \<union> (if i + 1 = 5 then {0} else {})\<rparr>
          else u)"
  using assms
  by (subst ray_loop.simps)
     (simp add: Let_def choose_axis_def tDeltaX_def tDelta_def scenario_ray_def stepX_def
        scenario_built_fields IsValidIndex_def collect_cells_at scenario_cells_at)

lemma scenario_stop:
  assumes "d \<le> t"
  shows "ray_loop choose_axis (BuildInstanced scenario_grid scenario_objects) scenario_ray d
           \<lparr>cur_ix = i, cur_iy = 5, cur_iz = 5, tMaxX = Fin t, tMaxY = PInf, tMaxZ = PInf,
            currentT = Fin s, uniqueIndices = u\<rparr> = u"
  using assms
  by (subst ray_loop.simps)
     (simp add: Let_def choose_axis_def tDeltaX_def tDelta_def scenario_ray_def stepX_def)

lemma scenario_leave:
  shows "ray_loop choose_axis (BuildInstanced scenario_grid scenario_objects) scenario_ray d
           \<lparr>cur_ix = 9, cur_iy = 5, cur_iz = 5, tMaxX = Fin t, tMaxY = PInf, tMaxZ = PInf,
            currentT = Fin s, uniqueIndices = u\<rparr> = u"
  by (subst ray_loop.simps)
     (simp add: Let_def choose_axis_def tDeltaX_def tDelta_def scenario_ray_def stepX_def
        scenario_built_fields IsValidIndex_def)

lemma scenario_loop_200:
  "ray_loop choose_axis (BuildInstanced scenario_grid scenario_objects) scenario_ray 200
     (ray_start (BuildInstanced scenario_grid scenario_objects) scenario_ray) = {0}"
  by (simp add: scenario_ray_start scenario_step scenario_leave)

lemma scenario_loop_50:
  "ray_loop choose_axis (BuildInstanced scenario_grid scenario_objects) scenario_ray 50
     (ray_start (BuildInstanced scenario_grid scenario_objects) scenario_ray) = {}"
  by (simp add: scenario_ray_start scenario_step scenario_stop)

section \<open>Claims\<close>

text \<open>
  C1, as amended. The claim fails on a grid whose cell count wraps (counterexample below).
  What holds: on a grid whose cell count \<open>nx * ny * nz\<close> is below \<open>2^31\<close>, if an active
  object is built into the grid and both corners of its box, the position plus and minus
  \<open>max(collisionRadius, 0.5)\<close> on each axis, scale to values of \<^verbatim>\<open>int\<close> and have the same
  clamped cell \<open>c\<close>, then \<open>Query p\<close> contains the object's index for every position \<open>p\<close>
  whose clamped cell is \<open>c\<close>. (The radius that \<^verbatim>\<open>BuildInstanced\<close> uses is
  \<open>collisionRadius\<close> when that is positive and \<open>0.5\<close> otherwise; it is never larger than
  the radius of the claim.)
\<close>

theorem Query_finds_object_in_cell:
  assumes "grid_inv g" and "cells_fit g"
    and "i < length instances" and "isActive (instances ! i)"
    and "r = max (collisionRadius (instances ! i)) (1 / 2)"
    and "convertible g \<lparr>vx = vx (position (instances ! i)) - r,
           vy = vy (position (instances ! i)) - r, vz = vz (position (instances ! i)) - r\<rparr>"
    and "convertible g \<lparr>vx = vx (position (instances ! i)) + r,
           vy = vy (position (instances ! i)) + r, vz = vz (position (instances ! i)) + r\<rparr>"
    and "GetCellIndices g \<lparr>vx = vx (position (instances ! i)) - r,
           vy = vy (position (instances ! i)) - r, vz = vz (position (instances ! i)) - r\<rparr> = c"
    and "GetCellIndices g \<lparr>vx = vx (position (instances ! i)) + r,
           vy = vy (position (instances ! i)) + r, vz = vz (position (instances ! i)) + r\<rparr> = c"
    and "GetCellIndices g p = c"
  shows "int i \<in> set (Query (BuildInstanced g instances) p)"
proof -
  let ?a = "instances ! i" and ?g' = "BuildInstanced g instances"
  let ?lo = "\<lparr>vx = vx (position ?a) - r, vy = vy (position ?a) - r, vz = vz (position ?a) - r\<rparr>"
  let ?hi = "\<lparr>vx = vx (position ?a) + r, vy = vy (position ?a) + r, vz = vz (position ?a) + r\<rparr>"
  let ?bl = "bmin (instanceBounds ?a)" and ?bh = "bmax (instanceBounds ?a)"
  have r: "0 < boundsRadius ?a" "boundsRadius ?a \<le> r"
    using boundsRadius_pos [of ?a] boundsRadius_le [of ?a] assms(5) by simp_all
  have cl: "convertible g ?bl"
    using assms(1,6,7) by (rule convertible_between) (use r in \<open>simp_all add: instanceBounds_simps\<close>)
  have ch: "convertible g ?bh"
    using assms(1,6,7) by (rule convertible_between) (use r in \<open>simp_all add: instanceBounds_simps\<close>)
  note m1 = GetCellIndices_mono [OF assms(1,6) cl]
  note m2 = GetCellIndices_mono [OF assms(1) cl ch]
  note m3 = GetCellIndices_mono [OF assms(1) ch assms(7)]
  have lo: "cell_x (GetCellIndices g ?lo) \<le> cell_x (GetCellIndices g ?bl)"
      "cell_y (GetCellIndices g ?lo) \<le> cell_y (GetCellIndices g ?bl)"
      "cell_z (GetCellIndices g ?lo) \<le> cell_z (GetCellIndices g ?bl)"
    using r by (auto intro!: m1 simp: instanceBounds_simps)
  have mid: "cell_x (GetCellIndices g ?bl) \<le> cell_x (GetCellIndices g ?bh)"
      "cell_y (GetCellIndices g ?bl) \<le> cell_y (GetCellIndices g ?bh)"
      "cell_z (GetCellIndices g ?bl) \<le> cell_z (GetCellIndices g ?bh)"
    using r by (auto intro!: m2 simp: instanceBounds_simps)
  have hi: "cell_x (GetCellIndices g ?bh) \<le> cell_x (GetCellIndices g ?hi)"
      "cell_y (GetCellIndices g ?bh) \<le> cell_y (GetCellIndices g ?hi)"
      "cell_z (GetCellIndices g ?bh) \<le> cell_z (GetCellIndices g ?hi)"
    using r by (auto intro!: m3 simp: instanceBounds_simps)
  have "int i \<in> cells_at ?g' (cell_x c) (cell_y c) (cell_z c)"
    using assms(1,2,3,4)
  proof (rule BuildInstanced_stores(3))
    show "cell_x (GetCellIndices g ?bl) \<le> cell_x c"
      using mid(1) hi(1) assms(9) by simp
    show "cell_x c \<le> cell_x (GetCellIndices g ?bh)"
      using lo(1) mid(1) assms(8) by simp
    show "cell_y (GetCellIndices g ?bl) \<le> cell_y c"
      using mid(2) hi(2) assms(9) by simp
    show "cell_y c \<le> cell_y (GetCellIndices g ?bh)"
      using lo(2) mid(2) assms(8) by simp
    show "cell_z (GetCellIndices g ?bl) \<le> cell_z c"
      using mid(3) hi(3) assms(9) by simp
    show "cell_z c \<le> cell_z (GetCellIndices g ?bh)"
      using lo(3) mid(3) assms(8) by simp
  qed
  moreover have "GetCellIndices ?g' p = c"
    using BuildInstanced_shape [of g instances] assms(10)
    by (simp add: same_shape_GetCellIndices)
  ultimately show ?thesis
    using Query_contains_centre [of "int i" ?g' p] by simp
qed

theorem Query_finds_object_in_cell_witness:
  "grid_inv scenario_grid \<and> cells_fit scenario_grid \<and>
   0 < length scenario_objects \<and> isActive (scenario_objects ! 0) \<and>
   (1::real) = max (collisionRadius (scenario_objects ! 0)) (1 / 2) \<and>
   convertible scenario_grid (vec 4 4 4) \<and> convertible scenario_grid (vec 6 6 6) \<and>
   GetCellIndices scenario_grid (vec 4 4 4) = \<lparr>cell_x = 5, cell_y = 5, cell_z = 5\<rparr> \<and>
   GetCellIndices scenario_grid (vec 6 6 6) = \<lparr>cell_x = 5, cell_y = 5, cell_z = 5\<rparr> \<and>
   GetCellIndices scenario_grid (vec 9 1 3) = \<lparr>cell_x = 5, cell_y = 5, cell_z = 5\<rparr> \<and>
   int 0 \<in> set (Query (BuildInstanced scenario_grid scenario_objects) (vec 9 1 3))"
proof -
  have h: "0 < length scenario_objects" "isActive (scenario_objects ! 0)"
    "(1::real) = max (collisionRadius (scenario_objects ! 0)) (1 / 2)"
    by (simp_all add: scenario_objects_def)
  have e: "\<lparr>vx = vx (position (scenario_objects ! 0)) - 1,
            vy = vy (position (scenario_objects ! 0)) - 1,
            vz = vz (position (scenario_objects ! 0)) - 1\<rparr> = vec 4 4 4"
      "\<lparr>vx = vx (position (scenario_objects ! 0)) + 1,
        vy = vy (position (scenario_objects ! 0)) + 1,
        vz = vz (position (scenario_objects ! 0)) + 1\<rparr> = vec 6 6 6"
    by (simp_all add: scenario_objects_def)
  have v: "convertible scenario_grid (vec 4 4 4)" "convertible scenario_grid (vec 6 6 6)"
    by (simp_all add: convertible_def scenario_grid_fields)
  have c: "GetCellIndices scenario_grid (vec 4 4 4) = \<lparr>cell_x = 5, cell_y = 5, cell_z = 5\<rparr>"
    "GetCellIndices scenario_grid (vec 6 6 6) = \<lparr>cell_x = 5, cell_y = 5, cell_z = 5\<rparr>"
    "GetCellIndices scenario_grid (vec 9 1 3) = \<lparr>cell_x = 5, cell_y = 5, cell_z = 5\<rparr>"
    by (simp_all add: GetCellIndices_def Let_def Vector3Subtract_def scenario_grid_fields
          float_to_int_def)
  from Query_finds_object_in_cell [OF scenario_grid_inv scenario_grid_fit h
      v [folded e] c(1,2) [folded e] c(3)]
    h v c scenario_grid_inv scenario_grid_fit
  show ?thesis by simp
qed

text \<open>
  C1, the counterexample. The constructor returns \<open>overflow_grid\<close>: dimensions
  \<open>1300 x 2501 x 1321\<close>, whose product \<open>2^32 + 4\<close> wraps to \<open>totalCells = 4\<close>. The active
  object at \<open>(21,21,1)\<close> with radius \<open>0.5\<close> has its box inside the cell \<open>(10,10,0)\<close>, whose
  linear index 13010 is not below 4: \<open>Add\<close> takes the warning branch and stores nothing,
  and \<open>Query\<close> at the object's own position returns the empty list.
\<close>

theorem Query_misses_counterexample:
  "UniformGrid_init (vec 0 0 0) (vec 2600 5002 2642) (vec 2 2 2) = Inr overflow_grid \<and>
   isActive (overflow_objects ! 0) \<and>
   max (collisionRadius (overflow_objects ! 0)) (1 / 2) = 1 / 2 \<and>
   GetCellIndices overflow_grid (vec (21 - 1 / 2) (21 - 1 / 2) (1 - 1 / 2)) =
     \<lparr>cell_x = 10, cell_y = 10, cell_z = 0\<rparr> \<and>
   GetCellIndices overflow_grid (vec (21 + 1 / 2) (21 + 1 / 2) (1 + 1 / 2)) =
     \<lparr>cell_x = 10, cell_y = 10, cell_z = 0\<rparr> \<and>
   GetCellIndices overflow_grid (vec 21 21 1) = \<lparr>cell_x = 10, cell_y = 10, cell_z = 0\<rparr> \<and>
   int 0 \<notin> set (Query (BuildInstanced overflow_grid overflow_objects) (vec 21 21 1))"
  by code_simp

text \<open>
  C2. The grid with bounds \<open>(-50,-50,-50)\<close>, \<open>(50,50,50)\<close> and cell size \<open>(10,10,10)\<close> is
  constructed and has the dimensions \<open>(10,10,10)\<close> and 1000 cells. After a build with
  object 0 active at \<open>(5,5,5)\<close> with radius 1, \<open>Query (4,4,4)\<close> contains 0; \<open>QueryRay\<close>
  from \<open>(-60,5,5)\<close> in direction \<open>(1,0,0)\<close> contains 0 with \<open>maxDistance = 200\<close> and does
  not with \<open>maxDistance = 50\<close>.
\<close>

theorem concrete_scenario:
  "UniformGrid_init (vec (-50) (-50) (-50)) (vec 50 50 50) (vec 10 10 10) = Inr scenario_grid \<and>
   gridDimX scenario_grid = 10 \<and> gridDimY scenario_grid = 10 \<and> gridDimZ scenario_grid = 10 \<and>
   totalCells scenario_grid = 1000 \<and> length (gridCells scenario_grid) = 1000 \<and>
   0 \<in> set (Query (BuildInstanced scenario_grid scenario_objects) (vec 4 4 4)) \<and>
   0 \<in> set (QueryRay (BuildInstanced scenario_grid scenario_objects) scenario_ray 200) \<and>
   0 \<notin> set (QueryRay (BuildInstanced scenario_grid scenario_objects) scenario_ray 50)"
proof -
  let ?g = "BuildInstanced scenario_grid scenario_objects"
  have c: "GetCellIndices ?g (vec 4 4 4) = \<lparr>cell_x = 5, cell_y = 5, cell_z = 5\<rparr>"
    by (simp add: GetCellIndices_def Let_def Vector3Subtract_def scenario_built_fields
          float_to_int_def)
  have "0 \<in> cells_at ?g 5 5 5" by (simp add: scenario_cells_at)
  with c have q: "0 \<in> set (Query ?g (vec 4 4 4))"
    by (intro Query_contains_centre) simp
  have d: "\<not> Vector3LengthSqr (ray_direction scenario_ray) < 1 / 10000"
    by (simp add: Vector3LengthSqr_def scenario_ray_def)
  have "set (QueryRay ?g scenario_ray 200) = {0}"
    using d by (simp add: set_QueryRay scenario_loop_200)
  moreover have "set (QueryRay ?g scenario_ray 50) = {}"
    using d by (simp add: set_QueryRay scenario_loop_50)
  ultimately show ?thesis
    using q by (simp add: scenario_grid_fields scenario_grid_init)
qed

text \<open>
  C3. An object whose \<open>isActive\<close> flag is false when \<^verbatim>\<open>BuildInstanced\<close> runs is stored in
  no cell of the built grid and is in no result of \<open>Query\<close> or \<open>QueryRay\<close> on it, whatever
  the grid held before. Queries do not change the grid, so this lasts until the next build.
\<close>

theorem inactive_never_returned:
  assumes "grid_inv g" and "i < length instances" and "\<not> isActive (instances ! i)"
  shows "(\<forall>cell \<in> set (gridCells (BuildInstanced g instances)). int i \<notin> set cell) \<and>
         int i \<notin> set (Query (BuildInstanced g instances) p) \<and>
         int i \<notin> set (QueryRay (BuildInstanced g instances) ray maxDistance)"
proof -
  let ?g' = "BuildInstanced g instances"
  have n: "int i \<notin> stored ?g'"
    using BuildInstanced_stored [OF assms(1), of instances] assms(2,3) by auto
  then have "\<forall>cell \<in> set (gridCells ?g'). int i \<notin> set cell"
    by (simp add: stored_def)
  moreover have "int i \<notin> set (Query ?g' p)"
    using n neighbourhood_stored [of ?g'] by (auto simp: set_Query)
  moreover have "int i \<notin> set (QueryRay ?g' ray maxDistance)"
    using n QueryRay_stored [of ?g' ray maxDistance] by auto
  ultimately show ?thesis by blast
qed

theorem inactive_never_returned_witness:
  "grid_inv (BuildInstanced scenario_grid scenario_objects) \<and>
   0 < length scenario_inactive \<and> \<not> isActive (scenario_inactive ! 0) \<and>
   int 0 \<in> set (Query (BuildInstanced scenario_grid scenario_objects) (vec 4 4 4)) \<and>
   int 0 \<notin> set (concat (gridCells (BuildInstanced (BuildInstanced scenario_grid scenario_objects)
                                        scenario_inactive))) \<and>
   int 0 \<notin> set (Query (BuildInstanced (BuildInstanced scenario_grid scenario_objects)
                         scenario_inactive) (vec 4 4 4)) \<and>
   int 0 \<notin> set (QueryRay (BuildInstanced (BuildInstanced scenario_grid scenario_objects)
                            scenario_inactive) scenario_ray 200)"
proof -
  have h: "0 < length scenario_inactive" "\<not> isActive (scenario_inactive ! 0)"
    by (simp_all add: scenario_inactive_def)
  have c: "GetCellIndices (BuildInstanced scenario_grid scenario_objects) (vec 4 4 4) =
             \<lparr>cell_x = 5, cell_y = 5, cell_z = 5\<rparr>"
    by (simp add: GetCellIndices_def Let_def Vector3Subtract_def scenario_built_fields
          float_to_int_def)
  have "0 \<in> cells_at (BuildInstanced scenario_grid scenario_objects) 5 5 5"
    by (simp add: scenario_cells_at)
  with c have b: "int 0 \<in> set (Query (BuildInstanced scenario_grid scenario_objects) (vec 4 4 4))"
    by (intro Query_contains_centre) simp
  from inactive_never_returned [OF scenario_built_inv h, of "vec 4 4 4" scenario_ray 200]
    h b scenario_built_inv
  show ?thesis by simp
qed

text \<open>
  C4, as amended. The claim's second half fails on a grid whose cell count wraps
  (counterexample below). What holds: for every position \<open>p\<close>, inside the grid bounds or
  not, \<open>GetCellIndices g p\<close> has coordinates \<open>0 \<le> ix < nx\<close>, \<open>0 \<le> iy < ny\<close>,
  \<open>0 \<le> iz < nz\<close>; and when the cell count \<open>nx * ny * nz\<close> is below \<open>2^31\<close>, its linear
  index \<open>Get1DIndex\<close> lies in \<open>[0, totalCells)\<close>.
\<close>

theorem GetCellIndices_in_range:
  assumes "grid_inv g"
  shows "0 \<le> cell_x (GetCellIndices g p) \<and> cell_x (GetCellIndices g p) < gridDimX g \<and>
         0 \<le> cell_y (GetCellIndices g p) \<and> cell_y (GetCellIndices g p) < gridDimY g \<and>
         0 \<le> cell_z (GetCellIndices g p) \<and> cell_z (GetCellIndices g p) < gridDimZ g \<and>
         (cells_fit g \<longrightarrow>
            0 \<le> Get1DIndex g (cell_x (GetCellIndices g p)) (cell_y (GetCellIndices g p))
                    (cell_z (GetCellIndices g p)) \<and>
            Get1DIndex g (cell_x (GetCellIndices g p)) (cell_y (GetCellIndices g p))
              (cell_z (GetCellIndices g p)) < totalCells g)"
  using GetCellIndices_valid [OF assms, of p]
    Get1DIndex_exact(2,3) [OF assms _ GetCellIndices_valid [OF assms, of p]]
  by (simp add: IsValidIndex_def)

theorem GetCellIndices_in_range_witness:
  "grid_inv scenario_grid \<and> cells_fit scenario_grid \<and>
   GetCellIndices scenario_grid (vec 1000 (-1000) 7) = \<lparr>cell_x = 9, cell_y = 0, cell_z = 5\<rparr> \<and>
   Get1DIndex scenario_grid 9 0 5 = 509 \<and>
   0 \<le> Get1DIndex scenario_grid 9 0 5 \<and> Get1DIndex scenario_grid 9 0 5 < totalCells scenario_grid"
proof -
  have c: "GetCellIndices scenario_grid (vec 1000 (-1000) 7) = \<lparr>cell_x = 9, cell_y = 0, cell_z = 5\<rparr>"
    by (simp add: GetCellIndices_def Let_def Vector3Subtract_def scenario_grid_fields
          float_to_int_def)
  have i: "Get1DIndex scenario_grid 9 0 5 = 509"
    by (simp add: Get1DIndex_def wrap32_def scenario_grid_fields)
  from GetCellIndices_in_range [OF scenario_grid_inv, of "vec 1000 (-1000) 7"] c i
  show ?thesis by (simp add: scenario_grid_inv scenario_grid_fit)
qed

text \<open>
  C4, the counterexample. In \<open>overflow_grid\<close> (\<open>totalCells = 4\<close>) the position
  \<open>(21,21,1)\<close> lies in the cell \<open>(10,10,0)\<close>, and \<open>Get1DIndex\<close> of that cell is 13010.
\<close>

theorem linear_index_counterexample:
  "UniformGrid_init (vec 0 0 0) (vec 2600 5002 2642) (vec 2 2 2) = Inr overflow_grid \<and>
   totalCells overflow_grid = 4 \<and>
   GetCellIndices overflow_grid (vec 21 21 1) = \<lparr>cell_x = 10, cell_y = 10, cell_z = 0\<rparr> \<and>
   Get1DIndex overflow_grid 10 10 0 = 13010 \<and>
   \<not> Get1DIndex overflow_grid (cell_x (GetCellIndices overflow_grid (vec 21 21 1)))
       (cell_y (GetCellIndices overflow_grid (vec 21 21 1)))
       (cell_z (GetCellIndices overflow_grid (vec 21 21 1))) < totalCells overflow_grid"
  by code_simp

text \<open>
  C5. For a ray whose direction has a squared length below the threshold \<open>0.0001\<close>, and
  any \<open>maxDistance\<close>, \<open>QueryRay\<close> returns what \<open>Query\<close> returns at the ray's origin.
\<close>

theorem QueryRay_degenerate:
  assumes "Vector3LengthSqr (ray_direction ray) < 1 / 10000"
  shows "QueryRay g ray maxDistance = Query g (ray_position ray)"
  using assms by (simp add: QueryRay_def)

theorem QueryRay_degenerate_witness:
  "Vector3LengthSqr (ray_direction \<lparr>ray_position = vec 4 4 4, ray_direction = vec 0 (1 / 1000) 0\<rparr>)
     < 1 / 10000 \<and>
   QueryRay scenario_grid \<lparr>ray_position = vec 4 4 4, ray_direction = vec 0 (1 / 1000) 0\<rparr> 200 =
   Query scenario_grid (vec 4 4 4)"
proof -
  have h: "Vector3LengthSqr (ray_direction \<lparr>ray_position = vec 4 4 4, ray_direction = vec 0 (1 / 1000) 0\<rparr>)
     < 1 / 10000"
    by (simp add: Vector3LengthSqr_def)
  from QueryRay_degenerate [OF h, of scenario_grid 200] h show ?thesis by simp
qed

text \<open>
  C6, as amended. The claim that the result of \<open>QueryRay\<close> does not depend on the
  tie-break fails (counterexample below). What holds: when no iteration of the implemented
  loop finds its smallest \<open>tMax\<close> shared by two or three axes, the traversal that on ties
  advances x before y before z returns the same list as the implemented one.
\<close>

theorem tie_free_xyz_agrees:
  assumes "ray_tie_free g ray maxDistance (ray_start g ray)"
  shows "QueryRay_xyz g ray maxDistance = QueryRay g ray maxDistance"
  using ray_loop_tie_free [OF assms] by (simp add: QueryRay_xyz_def QueryRay_def)

theorem tie_free_xyz_agrees_witness:
  "ray_tie_free (BuildInstanced tie_grid tie_objects) tie_free_ray 100
     (ray_start (BuildInstanced tie_grid tie_objects) tie_free_ray) \<and>
   QueryRay_xyz (BuildInstanced tie_grid tie_objects) tie_free_ray 100 =
   QueryRay (BuildInstanced tie_grid tie_objects) tie_free_ray 100 \<and>
   QueryRay (BuildInstanced tie_grid tie_objects) tie_free_ray 100 = [0]"
proof -
  have h: "ray_tie_free (BuildInstanced tie_grid tie_objects) tie_free_ray 100
     (ray_start (BuildInstanced tie_grid tie_objects) tie_free_ray)"
    by code_simp
  have v: "QueryRay (BuildInstanced tie_grid tie_objects) tie_free_ray 100 = [0]"
    by code_simp
  from tie_free_xyz_agrees [OF h] h v show ?thesis by simp
qed

text \<open>
  C6, the counterexample. In \<open>tie_grid\<close> the ray \<open>tie_ray\<close> leaves the cell \<open>(0,0,0)\<close>
  through an edge: \<open>tMaxX = tMaxY = 5\<close>. The implemented loop advances y first and passes
  through the cell \<open>(0,1,0)\<close>, where object 0 is stored; the x-before-y-before-z traversal
  passes through \<open>(1,0,0)\<close> instead and never sees it.
\<close>

theorem tie_break_counterexample:
  "QueryRay (BuildInstanced tie_grid tie_objects) tie_ray 100 = [0] \<and>
   QueryRay_xyz (BuildInstanced tie_grid tie_objects) tie_ray 100 = [] \<and>
   set (QueryRay_xyz (BuildInstanced tie_grid tie_objects) tie_ray 100) \<noteq>
   set (QueryRay (BuildInstanced tie_grid tie_objects) tie_ray 100)"
  by code_simp

text \<open>
  C7, as amended. Construction can fail, and the cell count can differ from \<open>nx * ny * nz\<close>
  (counterexample below). What holds: a cell size component that is not positive gives
  what the component 1 gives, failure included. When the ceiling of extent over cell size
  is below \<open>2^31\<close> on every axis and the product of the dimensions is below \<open>2^31\<close>,
  construction succeeds, every dimension is that ceiling made at least 1, \<open>totalCells\<close> is
  their product, and that many empty cells are allocated.
\<close>

theorem UniformGrid_init_nonpositive_cell:
  "(vx cellSize \<le> 0 \<longrightarrow>
      UniformGrid_init worldMin worldMax cellSize =
      UniformGrid_init worldMin worldMax (cellSize\<lparr>vx := 1\<rparr>)) \<and>
   (vy cellSize \<le> 0 \<longrightarrow>
      UniformGrid_init worldMin worldMax cellSize =
      UniformGrid_init worldMin worldMax (cellSize\<lparr>vy := 1\<rparr>)) \<and>
   (vz cellSize \<le> 0 \<longrightarrow>
      UniformGrid_init worldMin worldMax cellSize =
      UniformGrid_init worldMin worldMax (cellSize\<lparr>vz := 1\<rparr>)) \<and>
   (let cx = (if vx cellSize \<le> 0 then 1 else vx cellSize);
        cy = (if vy cellSize \<le> 0 then 1 else vy cellSize);
        cz = (if vz cellSize \<le> 0 then 1 else vz cellSize);
        qx = \<lceil>(vx worldMax - vx worldMin) / cx\<rceil>;
        qy = \<lceil>(vy worldMax - vy worldMin) / cy\<rceil>;
        qz = \<lceil>(vz worldMax - vz worldMin) / cz\<rceil>
    in qx < 2 ^ 31 \<and> qy < 2 ^ 31 \<and> qz < 2 ^ 31 \<and> max 1 qx * max 1 qy * max 1 qz < 2 ^ 31 \<longrightarrow>
       UniformGrid_init worldMin worldMax cellSize =
       Inr \<lparr>gridMinBounds = worldMin, gridMaxBounds = worldMax, gridCellSize = vec cx cy cz,
            gridDimX = max 1 qx, gridDimY = max 1 qy, gridDimZ = max 1 qz,
            totalCells = max 1 qx * max 1 qy * max 1 qz,
            gridCells = replicate (nat (max 1 qx * max 1 qy * max 1 qz)) []\<rparr>)"
proof -
  have "positiveCellSize (cellSize\<lparr>vx := 1\<rparr>) = positiveCellSize cellSize" if "vx cellSize \<le> 0"
    using that by (simp add: positiveCellSize_def)
  then have x: "UniformGrid_init worldMin worldMax cellSize =
                UniformGrid_init worldMin worldMax (cellSize\<lparr>vx := 1\<rparr>)" if "vx cellSize \<le> 0"
    using that by (simp add: UniformGrid_init_def UniformGrid_state_def)
  have "positiveCellSize (cellSize\<lparr>vy := 1\<rparr>) = positiveCellSize cellSize" if "vy cellSize \<le> 0"
    using that by (simp add: positiveCellSize_def)
  then have y: "UniformGrid_init worldMin worldMax cellSize =
                UniformGrid_init worldMin worldMax (cellSize\<lparr>vy := 1\<rparr>)" if "vy cellSize \<le> 0"
    using that by (simp add: UniformGrid_init_def UniformGrid_state_def)
  have "positiveCellSize (cellSize\<lparr>vz := 1\<rparr>) = positiveCellSize cellSize" if "vz cellSize \<le> 0"
    using that by (simp add: positiveCellSize_def)
  then have z: "UniformGrid_init worldMin worldMax cellSize =
                UniformGrid_init worldMin worldMax (cellSize\<lparr>vz := 1\<rparr>)" if "vz cellSize \<le> 0"
    using that by (simp add: UniformGrid_init_def UniformGrid_state_def)
  define cx where "cx = (if vx cellSize \<le> 0 then 1 else vx cellSize)"
  define cy where "cy = (if vy cellSize \<le> 0 then 1 else vy cellSize)"
  define cz where "cz = (if vz cellSize \<le> 0 then 1 else vz cellSize)"
  define qx where "qx = \<lceil>(vx worldMax - vx worldMin) / cx\<rceil>"
  define qy where "qy = \<lceil>(vy worldMax - vy worldMin) / cy\<rceil>"
  define qz where "qz = \<lceil>(vz worldMax - vz worldMin) / cz\<rceil>"
  have s: "UniformGrid_init worldMin worldMax cellSize =
       Inr \<lparr>gridMinBounds = worldMin, gridMaxBounds = worldMax, gridCellSize = vec cx cy cz,
            gridDimX = max 1 qx, gridDimY = max 1 qy, gridDimZ = max 1 qz,
            totalCells = max 1 qx * max 1 qy * max 1 qz,
            gridCells = replicate (nat (max 1 qx * max 1 qy * max 1 qz)) []\<rparr>"
    if q: "qx < 2 ^ 31" "qy < 2 ^ 31" "qz < 2 ^ 31" and f: "max 1 qx * max 1 qy * max 1 qz < 2 ^ 31"
  proof -
    have g: "gridDim e c = max 1 \<lceil>e / c\<rceil>" if "\<lceil>e / c\<rceil> < 2 ^ 31" for e c
      using that by (simp add: gridDim_def float_to_int_def Let_def max_def)
    have c: "positiveCellSize cellSize = vec cx cy cz"
      by (simp add: positiveCellSize_def cx_def cy_def cz_def)
    have dx: "gridDim (vx worldMax - vx worldMin) cx = max 1 qx"
      using q(1) unfolding qx_def by (rule g)
    have dy: "gridDim (vy worldMax - vy worldMin) cy = max 1 qy"
      using q(2) unfolding qy_def by (rule g)
    have dz: "gridDim (vz worldMax - vz worldMin) cz = max 1 qz"
      using q(3) unfolding qz_def by (rule g)
    let ?nx = "max 1 qx" and ?ny = "max 1 qy" and ?nz = "max 1 qz"
    have "1 * 1 \<le> ?nx * ?ny" by (intro mult_mono) simp_all
    then have p: "1 \<le> ?nx * ?ny" by simp
    then have "?nx * ?ny * 1 \<le> ?nx * ?ny * ?nz" by (intro mult_left_mono) simp_all
    with f have "?nx * ?ny < 2 ^ 31" by simp
    with p have w1: "wrap32 (?nx * ?ny) = ?nx * ?ny" by (intro wrap32_id) simp_all
    have n: "0 \<le> ?nx * ?ny * ?nz" using p by simp
    have "- (2 ^ 31) \<le> (0::int)" by simp
    then have "- (2 ^ 31) \<le> ?nx * ?ny * ?nz" using n by (rule order_trans)
    then have w2: "wrap32 (?nx * ?ny * ?nz) = ?nx * ?ny * ?nz"
      using f by (rule wrap32_id)
    have st: "UniformGrid_state worldMin worldMax cellSize =
       \<lparr>gridMinBounds = worldMin, gridMaxBounds = worldMax, gridCellSize = vec cx cy cz,
        gridDimX = ?nx, gridDimY = ?ny, gridDimZ = ?nz, totalCells = ?nx * ?ny * ?nz,
        gridCells = replicate (nat (?nx * ?ny * ?nz)) []\<rparr>"
      by (simp add: UniformGrid_state_def Let_def Vector3Subtract_def c dx dy dz w1 w2)
    have n': "\<not> ?nx * ?ny * ?nz < 0" using n by (rule leD)
    show ?thesis
      unfolding UniformGrid_init_def Let_def st using n'
      by (simp only: UniformGrid.select_convs if_False)
  qed
  show ?thesis
    using x y z s unfolding Let_def cx_def cy_def cz_def qx_def qy_def qz_def by blast
qed

theorem UniformGrid_init_nonpositive_cell_witness:
  "vx (vec 0 (-3) 10) \<le> 0 \<and> vy (vec 0 (-3) 10) \<le> 0 \<and>
   UniformGrid_init (vec 0 0 0) (vec 20 20 10) (vec 0 (-3) 10) =
   UniformGrid_init (vec 0 0 0) (vec 20 20 10) (vec 1 (-3) 10) \<and>
   UniformGrid_init (vec 0 0 0) (vec 20 20 10) (vec 0 (-3) 10) =
   UniformGrid_init (vec 0 0 0) (vec 20 20 10) (vec 0 1 10) \<and>
   UniformGrid_init (vec 0 0 0) (vec 20 20 10) (vec 0 (-3) 10) =
     Inr \<lparr>gridMinBounds = vec 0 0 0, gridMaxBounds = vec 20 20 10, gridCellSize = vec 1 1 10,
          gridDimX = 20, gridDimY = 20, gridDimZ = 1, totalCells = 400,
          gridCells = replicate 400 []\<rparr>"
proof -
  note t = UniformGrid_init_nonpositive_cell [of "vec 0 (-3) 10" "vec 0 0 0" "vec 20 20 10"]
  have x: "UniformGrid_init (vec 0 0 0) (vec 20 20 10) (vec 0 (-3) 10) =
           UniformGrid_init (vec 0 0 0) (vec 20 20 10) (vec 1 (-3) 10)"
    using t [THEN conjunct1] by simp
  have y: "UniformGrid_init (vec 0 0 0) (vec 20 20 10) (vec 0 (-3) 10) =
           UniformGrid_init (vec 0 0 0) (vec 20 20 10) (vec 0 1 10)"
    using t [THEN conjunct2, THEN conjunct1] by simp
  have g: "UniformGrid_init (vec 0 0 0) (vec 20 20 10) (vec 0 (-3) 10) =
     Inr \<lparr>gridMinBounds = vec 0 0 0, gridMaxBounds = vec 20 20 10, gridCellSize = vec 1 1 10,
          gridDimX = 20, gridDimY = 20, gridDimZ = 1, totalCells = 400,
          gridCells = replicate 400 []\<rparr>"
    using t [THEN conjunct2, THEN conjunct2, THEN conjunct2] by (simp add: Let_def)
  show ?thesis
    by (rule conjI, simp, rule conjI, simp, rule conjI, rule x, rule conjI, rule y, rule g)
qed

text \<open>
  C7, the counterexample. With the cell size \<open>(0,0,0)\<close>, taken as \<open>(1,1,1)\<close>, and the
  extent \<open>2000\<close> on every axis, the product \<open>2000 * 2000 * 2000\<close> wraps to \<open>-589934592\<close>
  and \<^verbatim>\<open>resize\<close> throws: construction fails. With the cell size \<open>(2,2,2)\<close> and the bounds
  of \<open>overflow_grid\<close> it succeeds, with 4 cells for \<open>1300 * 2501 * 1321\<close> of them.
\<close>

theorem constructor_fails_counterexample:
  "UniformGrid_init (vec 0 0 0) (vec 2000 2000 2000) (vec 0 0 0) = Inl LengthError \<and>
   totalCells (UniformGrid_state (vec 0 0 0) (vec 2000 2000 2000) (vec 0 0 0)) = - 589934592 \<and>
   UniformGrid_init (vec 0 0 0) (vec 2600 5002 2642) (vec 2 2 2) = Inr overflow_grid \<and>
   gridDimX overflow_grid * gridDimY overflow_grid * gridDimZ overflow_grid = 4294967300 \<and>
   totalCells overflow_grid = 4 \<and> length (gridCells overflow_grid) = 4"
  by code_simp

text \<open>
  C8, as amended. On a grid whose cell count wraps the warning branch is taken
  (counterexample below). What holds: when the cell count \<open>nx * ny * nz\<close> is below \<open>2^31\<close>,
  then whenever \<open>IsValidIndex\<close> holds for the coordinates about to be linearised,
  \<open>Get1DIndex\<close> lies in \<open>[0, gridCells.size())\<close>, so the guarded access of \<open>Add\<close>,
  \<open>Query\<close> and \<open>QueryRay\<close> reads the cell and never takes the warning branch. The
  operations that change the cells keep the invariant and the cell count, so the statement
  holds at every access inside their loops.
\<close>

theorem lookup_cell_never_warns:
  assumes "grid_inv g" and "cells_fit g"
  shows "(IsValidIndex g ix iy iz \<longrightarrow>
            0 \<le> Get1DIndex g ix iy iz \<and> Get1DIndex g ix iy iz < int (length (gridCells g)) \<and>
            lookup_cell g ix iy iz = Cell (nat (Get1DIndex g ix iy iz))) \<and>
         lookup_cell g ix iy iz \<noteq> Warning w \<and>
         grid_inv (add_at i iz iy ix g) \<and> cells_fit (add_at i iz iy ix g) \<and>
         grid_inv (Add g i b) \<and> cells_fit (Add g i b) \<and>
         grid_inv (Clear g) \<and> cells_fit (Clear g) \<and>
         grid_inv (BuildInstanced g instances) \<and> cells_fit (BuildInstanced g instances)"
proof -
  have "int (length (gridCells g)) = totalCells g"
    using assms(1) by (simp add: grid_inv_def)
  then have "0 \<le> Get1DIndex g ix iy iz \<and> Get1DIndex g ix iy iz < int (length (gridCells g))"
    if "IsValidIndex g ix iy iz"
    using Get1DIndex_exact(2,3) [OF assms that] by simp
  moreover have "lookup_cell g ix iy iz \<noteq> Warning w"
    by (simp add: lookup_cell_inv [OF assms])
  moreover have "grid_inv h \<and> cells_fit h" if "same_shape g h" for h
    using assms by (simp add: same_shape_inv [OF that] same_shape_cells_fit [OF that])
  ultimately show ?thesis
    using add_at_shape Add_shape Clear_shape BuildInstanced_shape
    by (simp add: lookup_cell_valid [OF assms])
qed

theorem lookup_cell_never_warns_witness:
  "grid_inv scenario_grid \<and> cells_fit scenario_grid \<and> IsValidIndex scenario_grid 5 5 5 \<and>
   Get1DIndex scenario_grid 5 5 5 = 555 \<and>
   lookup_cell scenario_grid 5 5 5 = Cell 555 \<and>
   lookup_cell scenario_grid 10 5 5 \<noteq> Warning 560 \<and>
   grid_inv (BuildInstanced scenario_grid scenario_objects)"
proof -
  have v: "IsValidIndex scenario_grid 5 5 5"
    by (simp add: IsValidIndex_def scenario_grid_fields)
  have k: "Get1DIndex scenario_grid 5 5 5 = 555"
    by (simp add: Get1DIndex_def wrap32_def scenario_grid_fields)
  from lookup_cell_never_warns [OF scenario_grid_inv scenario_grid_fit,
      where ix = 5 and iy = 5 and iz = 5 and w = 560 and instances = scenario_objects]
    lookup_cell_never_warns [OF scenario_grid_inv scenario_grid_fit,
      where ix = 10 and iy = 5 and iz = 5 and w = 560 and instances = scenario_objects]
    v k scenario_grid_inv scenario_grid_fit
  show ?thesis by simp
qed

text \<open>
  C8, the counterexample. In \<open>overflow_grid\<close>, which the constructor returns with 4 cells,
  the triple \<open>(10,10,0)\<close> is valid and linearises to 13010: the guarded access takes the
  warning branch.
\<close>

theorem warning_branch_counterexample:
  "UniformGrid_init (vec 0 0 0) (vec 2600 5002 2642) (vec 2 2 2) = Inr overflow_grid \<and>
   IsValidIndex overflow_grid 10 10 0 \<and>
   Get1DIndex overflow_grid 10 10 0 = 13010 \<and>
   length (gridCells overflow_grid) = 4 \<and>
   lookup_cell overflow_grid 10 10 0 = Warning 13010"
  by code_simp

text \<open>
  C9. \<open>QueryRay\<close> terminates, and its loop body runs at most \<open>nx + ny + nz + 1\<close> times:
  with that budget of iterations the loop returns, and returns the result of \<open>QueryRay\<close>.
  The bound is a function of the grid dimensions alone, the same for the grid whatever
  objects are built into it. (Each iteration moves one cell coordinate by its fixed step and
  the loop leaves as soon as the cell is outside the grid, see \<open>remaining\<close>.)
\<close>

theorem QueryRay_iterations_bounded:
  assumes "grid_inv g"
  shows "QueryRay_fuel (nat (gridDimX g + gridDimY g + gridDimZ g) + 1) g ray maxDistance =
           Some (QueryRay g ray maxDistance) \<and>
         QueryRay_fuel (nat (gridDimX g + gridDimY g + gridDimZ g) + 1)
           (BuildInstanced g instances) ray maxDistance =
           Some (QueryRay (BuildInstanced g instances) ray maxDistance)"
proof -
  have a: "QueryRay_fuel (nat (gridDimX h + gridDimY h + gridDimZ h) + 1) h ray maxDistance =
           Some (QueryRay h ray maxDistance)" if "grid_inv h" for h
  proof -
    from remaining_start [OF that, of ray]
    have "remaining h ray (ray_start h ray) < nat (gridDimX h + gridDimY h + gridDimZ h) + 1"
      by linarith
    then have e: "ray_loop_fuel (nat (gridDimX h + gridDimY h + gridDimZ h) + 1) choose_axis h ray
                    maxDistance (ray_start h ray) =
                  Some (ray_loop choose_axis h ray maxDistance (ray_start h ray))"
      by (rule ray_loop_fuel_enough)
    show ?thesis
    proof (cases "Vector3LengthSqr (ray_direction ray) < 1 / 10000")
      case True
      then show ?thesis by (simp add: QueryRay_fuel_def QueryRay_def)
    next
      case False
      with e show ?thesis by (simp only: QueryRay_fuel_def QueryRay_def if_False option.map)
    qed
  qed
  have s: "same_shape g (BuildInstanced g instances)"
    by (rule BuildInstanced_shape)
  then have "grid_inv (BuildInstanced g instances)"
    using assms by (simp add: same_shape_inv)
  from a [OF assms] a [OF this] show ?thesis
    by (simp add: same_shape_fields [OF s])
qed

theorem QueryRay_iterations_bounded_witness:
  "grid_inv scenario_grid \<and>
   QueryRay_fuel 31 scenario_grid scenario_ray 200 = Some (QueryRay scenario_grid scenario_ray 200) \<and>
   QueryRay_fuel 31 (BuildInstanced scenario_grid scenario_objects) scenario_ray 200 =
     Some (QueryRay (BuildInstanced scenario_grid scenario_objects) scenario_ray 200)"
proof -
  have "nat (gridDimX scenario_grid + gridDimY scenario_grid + gridDimZ scenario_grid) + 1 = 31"
    by (simp add: scenario_grid_fields)
  with QueryRay_iterations_bounded [OF scenario_grid_inv, of scenario_ray 200 scenario_objects]
    scenario_grid_inv
  show ?thesis by (simp only: simp_thms)
qed

text \<open>
  C10, as amended. The claim fails for an object so far from the grid that a corner of its
  box does not scale to a value of \<^verbatim>\<open>int\<close> (counterexample below), and on a grid whose
  cell count wraps. What holds: on a grid whose cell count \<open>nx * ny * nz\<close> is below
  \<open>2^31\<close>, every active object whose box corners, the position plus and minus the radius
  used, scale to values of \<^verbatim>\<open>int\<close> has its index stored in the cell of its position,
  inside the grid bounds or not, and so \<open>Query\<close> at its position contains the index.
\<close>

theorem BuildInstanced_position_cell:
  assumes "grid_inv g" and "cells_fit g"
    and "i < length instances" and "isActive (instances ! i)"
    and "convertible g (bmin (instanceBounds (instances ! i)))"
    and "convertible g (bmax (instanceBounds (instances ! i)))"
  shows "int i \<in> set (gridCells (BuildInstanced g instances) !
            nat (Get1DIndex (BuildInstanced g instances)
                   (cell_x (GetCellIndices (BuildInstanced g instances) (position (instances ! i))))
                   (cell_y (GetCellIndices (BuildInstanced g instances) (position (instances ! i))))
                   (cell_z (GetCellIndices (BuildInstanced g instances) (position (instances ! i)))))) \<and>
         int i \<in> set (Query (BuildInstanced g instances) (position (instances ! i)))"
proof -
  let ?g' = "BuildInstanced g instances" and ?p = "position (instances ! i)"
  let ?c = "GetCellIndices ?g' ?p"
  have s: "same_shape g ?g'" by (rule BuildInstanced_shape)
  then have i: "grid_inv ?g'" and f: "cells_fit ?g'"
    using assms(1,2) by (simp_all add: same_shape_inv same_shape_cells_fit)
  have c: "?c = GetCellIndices g ?p" using s by (simp add: same_shape_GetCellIndices)
  have m: "int i \<in> cells_at ?g' (cell_x ?c) (cell_y ?c) (cell_z ?c)"
    unfolding c using assms by (rule BuildInstanced_stores_position)
  have "cells_at ?g' (cell_x ?c) (cell_y ?c) (cell_z ?c) =
          set (gridCells ?g' ! nat (Get1DIndex ?g' (cell_x ?c) (cell_y ?c) (cell_z ?c)))"
    using i f GetCellIndices_valid [OF i] by (rule cells_at_valid)
  with m Query_contains_centre [OF m] show ?thesis by simp
qed

theorem BuildInstanced_position_cell_witness:
  "grid_inv scenario_grid \<and> cells_fit scenario_grid \<and>
   0 < length scenario_far \<and> isActive (scenario_far ! 0) \<and>
   convertible scenario_grid (bmin (instanceBounds (scenario_far ! 0))) \<and>
   convertible scenario_grid (bmax (instanceBounds (scenario_far ! 0))) \<and>
   int 0 \<in> set (Query (BuildInstanced scenario_grid scenario_far) (vec 1000 (-1000) 7))"
proof -
  have h: "0 < length scenario_far" "isActive (scenario_far ! 0)"
    by (simp_all add: scenario_far_def)
  have v: "convertible scenario_grid (bmin (instanceBounds (scenario_far ! 0)))"
    "convertible scenario_grid (bmax (instanceBounds (scenario_far ! 0)))"
    by (simp_all add: convertible_def scenario_grid_fields instanceBounds_def boundsRadius_def
          scenario_far_def)
  have p: "position (scenario_far ! 0) = vec 1000 (-1000) 7"
    by (simp add: scenario_far_def)
  from BuildInstanced_position_cell [OF scenario_grid_inv scenario_grid_fit h v]
    h v p scenario_grid_inv scenario_grid_fit
  show ?thesis by simp
qed

text \<open>
  C10, the counterexample. \<open>far_grid\<close> has 2 x 1 x 1 cells of size 1 from the origin. The
  active object at \<open>(2147483520, 0.5, 0.5)\<close> has radius 128. Its position and the lower
  corner of its box scale to values below \<open>2^31\<close> and are clamped to the cell \<open>x = 1\<close>; the
  upper corner scales to \<open>2^31\<close>, which the conversion turns into \<open>-2^31\<close>, clamped to
  \<open>x = 0\<close>. The x loop of \<open>Add\<close> runs from 1 to 0: the object is stored nowhere, and
  \<open>Query\<close> at its position returns the empty list.
\<close>

theorem far_object_counterexample:
  "UniformGrid_init (vec 0 0 0) (vec 2 1 1) (vec 1 1 1) = Inr far_grid \<and>
   isActive (far_objects ! 0) \<and>
   GetCellIndices far_grid (bmin (instanceBounds (far_objects ! 0))) =
     \<lparr>cell_x = 1, cell_y = 0, cell_z = 0\<rparr> \<and>
   GetCellIndices far_grid (bmax (instanceBounds (far_objects ! 0))) =
     \<lparr>cell_x = 0, cell_y = 0, cell_z = 0\<rparr> \<and>
   GetCellIndices far_grid (position (far_objects ! 0)) = \<lparr>cell_x = 1, cell_y = 0, cell_z = 0\<rparr> \<and>
   gridCells (BuildInstanced far_grid far_objects) = [[], []] \<and>
   int 0 \<notin> set (Query (BuildInstanced far_grid far_objects) (position (far_objects ! 0)))"
  by code_simp

end
